theory Spec2Isabelle
  imports Complex_Main "HOL-Library.Multiset" "HOL-Library.Product_Lexorder"
begin

section \<open>Data model of the raster tile priority queue\<close>

text \<open>
  The enumerations used by \<^verbatim>\<open>cc/resources/raster_tile_priority_queue.cc\<close>.
  The switch in \<^verbatim>\<open>HigherPriorityTree\<close> names the three tree priorities; its
  \<^verbatim>\<open>default: NOTREACHED()\<close> branch has no value of the datatype left to handle.
\<close>

datatype TreePriority =
  SAME_PRIORITY_FOR_BOTH_TREES | SMOOTHNESS_TAKES_PRIORITY | NEW_CONTENT_TAKES_PRIORITY

datatype WhichTree = ACTIVE_TREE | PENDING_TREE

datatype PriorityBin = NOW | SOON | EVENTUALLY

datatype TileResolution = LOW_RESOLUTION | HIGH_RESOLUTION | NON_IDEAL_RESOLUTION

text \<open>
  \<^verbatim>\<open>TilePriority\<close>: the record the comparator reads. The distance is a C++
  \<^verbatim>\<open>float\<close>; it is modelled as a real number, which is the order the code
  relies on for finite distances.
\<close>

record TilePriority =
  resolution :: TileResolution
  priority_bin :: PriorityBin
  distance_to_visible :: real

text \<open>
  Modelled from the spec: the declaration of \<^verbatim>\<open>PriorityBin\<close> is not part of the
  source at hand; the bins are ordered \<^verbatim>\<open>NOW > SOON > EVENTUALLY\<close>.
\<close>

fun bin_rank :: "PriorityBin \<Rightarrow> nat" where
  "bin_rank NOW = 2"
| "bin_rank SOON = 1"
| "bin_rank EVENTUALLY = 0"

text \<open>
  Modelled from the spec: \<^verbatim>\<open>TilePriority::IsHigherPriorityThan\<close> is declared in a
  header that is not part of the source at hand. \<^verbatim>\<open>x\<close> is higher than \<^verbatim>\<open>y\<close>
  when its bin is higher, or the bins are equal and its distance is smaller.
\<close>

definition IsHigherPriorityThan :: "TilePriority \<Rightarrow> TilePriority \<Rightarrow> bool" where
  "IsHigherPriorityThan x y =
     (bin_rank (priority_bin y) < bin_rank (priority_bin x) \<or>
      (priority_bin x = priority_bin y \<and> distance_to_visible x < distance_to_visible y))"

text \<open>
  \<^verbatim>\<open>Tile\<close>: the code handles tiles through pointers, so a tile has an identity
  (\<open>tile_id\<close>), one priority per tree and the \<^verbatim>\<open>is_shared()\<close> flag.
\<close>

record Tile =
  tile_id :: nat
  priority_active :: TilePriority
  priority_pending :: TilePriority
  is_shared :: bool

definition priority :: "Tile \<Rightarrow> WhichTree \<Rightarrow> TilePriority" where
  "priority t tree = (case tree of ACTIVE_TREE \<Rightarrow> priority_active t | PENDING_TREE \<Rightarrow> priority_pending t)"

text \<open>
  Modelled from the spec: \<^verbatim>\<open>Tile::priority_for_tree_priority\<close> is declared in a
  header that is not part of the source at hand. It selects the active priority for
  \<^verbatim>\<open>SMOOTHNESS_TAKES_PRIORITY\<close> and \<^verbatim>\<open>SAME_PRIORITY_FOR_BOTH_TREES\<close>, and the
  pending priority for \<^verbatim>\<open>NEW_CONTENT_TAKES_PRIORITY\<close>.
\<close>

definition priority_for_tree_priority :: "Tile \<Rightarrow> TreePriority \<Rightarrow> TilePriority" where
  "priority_for_tree_priority t tp =
     (case tp of
        SMOOTHNESS_TAKES_PRIORITY \<Rightarrow> priority t ACTIVE_TREE
      | SAME_PRIORITY_FOR_BOTH_TREES \<Rightarrow> priority t ACTIVE_TREE
      | NEW_CONTENT_TAKES_PRIORITY \<Rightarrow> priority t PENDING_TREE)"

text \<open>
  \<^verbatim>\<open>TilingSetRasterQueue\<close> is the external iterator: the list of the tiles it
  still has to yield, in its own order. The code holds it through a
  \<^verbatim>\<open>scoped_ptr\<close> that may be null, hence the \<open>option\<close>. \<open>queue_Top\<close> is
  \<^verbatim>\<open>q->Top()\<close>: there is no tile to return through a null pointer or from an
  empty queue.
\<close>

type_synonym TilingSetRasterQueue = "Tile list"

definition queue_Top :: "TilingSetRasterQueue option \<Rightarrow> Tile option" where
  "queue_Top q = (case q of Some (t # rest) \<Rightarrow> Some t | _ \<Rightarrow> None)"

text \<open>\<^verbatim>\<open>!q || q->IsEmpty()\<close>\<close>

definition absent_or_empty :: "TilingSetRasterQueue option \<Rightarrow> bool" where
  "absent_or_empty q = (case q of None \<Rightarrow> True | Some ts \<Rightarrow> ts = [])"

section \<open>The tree arbiter\<close>

text \<open>\<^verbatim>\<open>shared_tile ? shared_tile : queue->Top()\<close>\<close>

definition shared_or_top :: "Tile option \<Rightarrow> TilingSetRasterQueue option \<Rightarrow> Tile option" where
  "shared_or_top shared_tile q = (case shared_tile of Some t \<Rightarrow> Some t | None \<Rightarrow> queue_Top q)"

text \<open>
  \<^verbatim>\<open>HigherPriorityTree\<close> (lines 83-125). The result is \<open>None\<close> where the code
  would read a tile through a null queue or from an empty one.
\<close>

definition HigherPriorityTree ::
  "TreePriority \<Rightarrow> TilingSetRasterQueue option \<Rightarrow> TilingSetRasterQueue option \<Rightarrow>
   Tile option \<Rightarrow> WhichTree option" where
  "HigherPriorityTree tp active_q pending_q shared_tile =
     (case tp of
        SMOOTHNESS_TAKES_PRIORITY \<Rightarrow>
          (case shared_or_top shared_tile active_q of
             None \<Rightarrow> None
           | Some active_tile \<Rightarrow>
               (case shared_or_top shared_tile pending_q of
                  None \<Rightarrow> None
                | Some pending_tile \<Rightarrow>
                    (let active_priority = priority active_tile ACTIVE_TREE;
                         pending_priority = priority pending_tile PENDING_TREE
                     in if priority_bin active_priority = EVENTUALLY \<and>
                           priority_bin pending_priority = NOW
                        then Some PENDING_TREE
                        else Some ACTIVE_TREE)))
      | NEW_CONTENT_TAKES_PRIORITY \<Rightarrow> Some PENDING_TREE
      | SAME_PRIORITY_FOR_BOTH_TREES \<Rightarrow>
          (case shared_or_top shared_tile active_q of
             None \<Rightarrow> None
           | Some active_tile \<Rightarrow>
               (case shared_or_top shared_tile pending_q of
                  None \<Rightarrow> None
                | Some pending_tile \<Rightarrow>
                    (let active_priority = priority active_tile ACTIVE_TREE;
                         pending_priority = priority pending_tile PENDING_TREE
                     in if IsHigherPriorityThan active_priority pending_priority
                        then Some ACTIVE_TREE
                        else Some PENDING_TREE))))"

section \<open>The paired tiling set queue\<close>

text \<open>
  \<^verbatim>\<open>PairedTilingSetQueue\<close>. The member \<^verbatim>\<open>returned_tiles_for_debug\<close> is read and
  written inside \<^verbatim>\<open>DCHECK\<close> only, which compiles to nothing in a release build,
  so it is not part of the state; what those assertions say is proved below instead.
\<close>

record PairedTilingSetQueue =
  active_queue :: "TilingSetRasterQueue option"
  pending_queue :: "TilingSetRasterQueue option"
  has_both_layers :: bool

definition Paired_IsEmpty :: "PairedTilingSetQueue \<Rightarrow> bool" where
  "Paired_IsEmpty pq = (absent_or_empty (active_queue pq) \<and> absent_or_empty (pending_queue pq))"

definition NextTileIteratorTree :: "TreePriority \<Rightarrow> PairedTilingSetQueue \<Rightarrow> WhichTree option" where
  "NextTileIteratorTree tp pq =
     (if absent_or_empty (active_queue pq) then Some PENDING_TREE
      else if absent_or_empty (pending_queue pq) then Some ACTIVE_TREE
      else HigherPriorityTree tp (active_queue pq) (pending_queue pq) None)"

text \<open>\<^verbatim>\<open>next_tree == ACTIVE_TREE ? active_queue.get() : pending_queue.get()\<close>\<close>

definition next_queue :: "WhichTree \<Rightarrow> PairedTilingSetQueue \<Rightarrow> TilingSetRasterQueue option" where
  "next_queue next_tree pq = (if next_tree = ACTIVE_TREE then active_queue pq else pending_queue pq)"

text \<open>
  The tile the pair would yield next: the tree chosen by \<^verbatim>\<open>NextTileIteratorTree\<close>
  and the top of that tree's queue, as \<^verbatim>\<open>Top\<close>, \<^verbatim>\<open>Pop\<close>,
  \<^verbatim>\<open>SkipTilesReturnedByTwin\<close> and the comparator all compute it.
\<close>

definition next_tile :: "TreePriority \<Rightarrow> PairedTilingSetQueue \<Rightarrow> Tile option" where
  "next_tile tp pq =
     (case NextTileIteratorTree tp pq of
        None \<Rightarrow> None
      | Some next_tree \<Rightarrow> queue_Top (next_queue next_tree pq))"

definition Paired_Top :: "TreePriority \<Rightarrow> PairedTilingSetQueue \<Rightarrow> Tile option" where
  "Paired_Top tp pq = (if Paired_IsEmpty pq then None else next_tile tp pq)"

text \<open>\<^verbatim>\<open>next_queue->Pop()\<close> on the queue of the given tree; \<open>None\<close> when that queue has no tile.\<close>

definition advance :: "WhichTree \<Rightarrow> PairedTilingSetQueue \<Rightarrow> PairedTilingSetQueue option" where
  "advance next_tree pq =
     (case next_queue next_tree pq of
        Some (t # rest) \<Rightarrow>
          Some (if next_tree = ACTIVE_TREE then pq\<lparr>active_queue := Some rest\<rparr>
                else pq\<lparr>pending_queue := Some rest\<rparr>)
      | _ \<Rightarrow> None)"

definition tiles_left :: "PairedTilingSetQueue \<Rightarrow> nat" where
  "tiles_left pq =
     (case active_queue pq of None \<Rightarrow> 0 | Some ts \<Rightarrow> length ts) +
     (case pending_queue pq of None \<Rightarrow> 0 | Some ts \<Rightarrow> length ts)"

lemma advance_tiles_left: "advance next_tree pq = Some pq' \<Longrightarrow> tiles_left pq' < tiles_left pq"
  by (auto simp: advance_def next_queue_def tiles_left_def
      split: option.splits list.splits if_splits)

text \<open>
  \<^verbatim>\<open>SkipTilesReturnedByTwin\<close> (lines 238-261): the \<^verbatim>\<open>while\<close> loop as a
  recursion; every round that does not stop removes one tile, so it ends.
\<close>

function SkipTilesReturnedByTwin :: "TreePriority \<Rightarrow> PairedTilingSetQueue \<Rightarrow> PairedTilingSetQueue" where
  "SkipTilesReturnedByTwin tp pq =
     (if Paired_IsEmpty pq then pq
      else
        (case NextTileIteratorTree tp pq of
           None \<Rightarrow> pq
         | Some next_tree \<Rightarrow>
             (case queue_Top (next_queue next_tree pq) of
                None \<Rightarrow> pq
              | Some tile \<Rightarrow>
                  if \<not> is_shared tile then pq
                  else if Some next_tree = HigherPriorityTree tp None None (Some tile) then pq
                  else
                    (case advance next_tree pq of
                       None \<Rightarrow> pq
                     | Some pq' \<Rightarrow> SkipTilesReturnedByTwin tp pq'))))"
  by pat_completeness auto
termination
  by (relation "measure (\<lambda>(tp, pq). tiles_left pq)") (auto simp: advance_tiles_left)

text \<open>
  \<^verbatim>\<open>PairedTilingSetQueue::Pop\<close> (lines 220-236). \<open>None\<close> is the failed
  \<^verbatim>\<open>DCHECK(!IsEmpty())\<close>, or a selected queue without a tile.
\<close>

definition Paired_Pop :: "TreePriority \<Rightarrow> PairedTilingSetQueue \<Rightarrow> PairedTilingSetQueue option" where
  "Paired_Pop tp pq =
     (if Paired_IsEmpty pq then None
      else
        (case NextTileIteratorTree tp pq of
           None \<Rightarrow> None
         | Some next_tree \<Rightarrow>
             (case advance next_tree pq of
                None \<Rightarrow> None
              | Some pq' \<Rightarrow>
                  Some (if has_both_layers pq' then SkipTilesReturnedByTwin tp pq' else pq'))))"

text \<open>
  \<^verbatim>\<open>PictureLayerImpl\<close> is external; all the code asks of a layer is
  \<^verbatim>\<open>CreateRasterQueue(prioritize_low_res)\<close>. \<^verbatim>\<open>PictureLayerImpl::Pair\<close> holds
  two layer pointers, each of which may be null.
\<close>

type_synonym PictureLayerImpl = "bool \<Rightarrow> TilingSetRasterQueue"

record Pair =
  active :: "PictureLayerImpl option"
  pending :: "PictureLayerImpl option"

definition CreateRasterQueue :: "PictureLayerImpl \<Rightarrow> bool \<Rightarrow> TilingSetRasterQueue" where
  "CreateRasterQueue layer prioritize_low_res = layer prioritize_low_res"

text \<open>The constructor of \<^verbatim>\<open>PairedTilingSetQueue\<close> (lines 174-194).\<close>

definition PairedTilingSetQueue_new :: "Pair \<Rightarrow> TreePriority \<Rightarrow> PairedTilingSetQueue" where
  "PairedTilingSetQueue_new layer_pair tp =
     (let pq = \<lparr>active_queue =
                  map_option (\<lambda>layer. CreateRasterQueue layer (tp = SMOOTHNESS_TAKES_PRIORITY))
                    (active layer_pair),
                pending_queue =
                  map_option (\<lambda>layer. CreateRasterQueue layer (tp = SMOOTHNESS_TAKES_PRIORITY))
                    (pending layer_pair),
                has_both_layers = (active layer_pair \<noteq> None \<and> pending layer_pair \<noteq> None)\<rparr>
      in if has_both_layers pq then SkipTilesReturnedByTwin tp pq else pq)"

text \<open>
  The tiles a pair emits when a client calls \<^verbatim>\<open>Top\<close> and \<^verbatim>\<open>Pop\<close> until
  \<^verbatim>\<open>IsEmpty\<close>, in order.
\<close>

declare SkipTilesReturnedByTwin.simps [simp del]

lemma SkipTilesReturnedByTwin_tiles_left:
  "tiles_left (SkipTilesReturnedByTwin tp pq) \<le> tiles_left pq"
proof (induction tp pq rule: SkipTilesReturnedByTwin.induct)
  case (1 tp pq)
  show ?case
  proof (cases "Paired_IsEmpty pq")
    case True
    then show ?thesis by (simp add: SkipTilesReturnedByTwin.simps [of tp pq])
  next
    case False
    note nonempty = this
    show ?thesis
    proof (cases "NextTileIteratorTree tp pq")
      case None
      with nonempty show ?thesis by (simp add: SkipTilesReturnedByTwin.simps [of tp pq])
    next
      case (Some next_tree)
      note tree = this
      show ?thesis
      proof (cases "queue_Top (next_queue next_tree pq)")
        case None
        with nonempty tree show ?thesis by (simp add: SkipTilesReturnedByTwin.simps [of tp pq])
      next
        case (Some tile)
        note top = this
        show ?thesis
        proof (cases "is_shared tile \<and> Some next_tree \<noteq> HigherPriorityTree tp None None (Some tile)")
          case False
          with nonempty tree top show ?thesis
            by (auto simp: SkipTilesReturnedByTwin.simps [of tp pq])
        next
          case True
          note skip = this
          show ?thesis
          proof (cases "advance next_tree pq")
            case None
            with nonempty tree top skip show ?thesis
              by (simp add: SkipTilesReturnedByTwin.simps [of tp pq])
          next
            case (Some pq')
            have "tiles_left (SkipTilesReturnedByTwin tp pq') \<le> tiles_left pq'"
              using "1.IH" [OF nonempty tree top _ _ Some] skip by simp
            moreover have "tiles_left pq' < tiles_left pq"
              using Some by (rule advance_tiles_left)
            moreover have "SkipTilesReturnedByTwin tp pq = SkipTilesReturnedByTwin tp pq'"
              using nonempty tree top skip Some
              by (simp add: SkipTilesReturnedByTwin.simps [of tp pq])
            ultimately show ?thesis by simp
          qed
        qed
      qed
    qed
  qed
qed

lemma Paired_Pop_tiles_left:
  assumes "Paired_Pop tp pq = Some pq'"
  shows "tiles_left pq' < tiles_left pq"
proof -
  from assms obtain next_tree pq1 where
    adv: "advance next_tree pq = Some pq1" and
    res: "pq' = (if has_both_layers pq1 then SkipTilesReturnedByTwin tp pq1 else pq1)"
    by (auto simp: Paired_Pop_def split: if_splits option.splits)
  have "tiles_left pq' \<le> tiles_left pq1"
    using res SkipTilesReturnedByTwin_tiles_left [of tp pq1] by simp
  moreover have "tiles_left pq1 < tiles_left pq"
    using adv by (rule advance_tiles_left)
  ultimately show ?thesis by simp
qed

function emitted :: "TreePriority \<Rightarrow> PairedTilingSetQueue \<Rightarrow> Tile list" where
  "emitted tp pq =
     (if Paired_IsEmpty pq then []
      else
        (case Paired_Top tp pq of
           None \<Rightarrow> []
         | Some t \<Rightarrow>
             (case Paired_Pop tp pq of
                None \<Rightarrow> []
              | Some pq' \<Rightarrow> t # emitted tp pq')))"
  by pat_completeness auto
termination
  by (relation "measure (\<lambda>(tp, pq). tiles_left pq)") (auto simp: Paired_Pop_tiles_left)

declare emitted.simps [simp del]



text \<open>
  \<^verbatim>\<open>PairedTilingSetQueue::StateAsValue\<close> (lines 278-315). The traced value is the
  sequence of its two dictionaries, each the sequence of the entries set on it;
  an integer entry holds the bin whose enumerator value the code writes.
\<close>

datatype TracedEntry = SetBoolean string bool | SetInteger string PriorityBin

type_synonym TracedValue = "(string \<times> TracedEntry list) list"

definition StateAsValue :: "PairedTilingSetQueue \<Rightarrow> TracedValue" where
  "StateAsValue pq =
     (let active_queue_has_tile = \<not> absent_or_empty (active_queue pq);
          active_top = (if active_queue_has_tile then queue_Top (active_queue pq) else None);
          active_priority_bin =
            (case active_top of
               None \<Rightarrow> EVENTUALLY
             | Some tile \<Rightarrow> priority_bin (priority tile ACTIVE_TREE));
          pending_priority_bin =
            (case active_top of
               None \<Rightarrow> EVENTUALLY
             | Some tile \<Rightarrow> priority_bin (priority tile PENDING_TREE));
          active_dictionary =
            [SetBoolean ''has_tile'' active_queue_has_tile,
             SetInteger ''active_priority_bin'' active_priority_bin,
             SetInteger ''pending_priority_bin'' pending_priority_bin];
          pending_queue_has_tile = \<not> absent_or_empty (pending_queue pq);
          pending_top = (if pending_queue_has_tile then queue_Top (pending_queue pq) else None);
          active_priority_bin =
            (case pending_top of
               None \<Rightarrow> EVENTUALLY
             | Some tile \<Rightarrow> priority_bin (priority tile ACTIVE_TREE));
          pending_priority_bin =
            (case pending_top of
               None \<Rightarrow> EVENTUALLY
             | Some tile \<Rightarrow> priority_bin (priority tile PENDING_TREE));
          pending_dictionary =
            [SetBoolean ''has_tile'' active_queue_has_tile,
             SetInteger ''active_priority_bin'' active_priority_bin,
             SetInteger ''pending_priority_bin'' pending_priority_bin]
      in [(''active_queue'', active_dictionary), (''pending_queue'', pending_dictionary)])"

text \<open>Reading a boolean entry of a dictionary of a traced value.\<close>

fun lookup_boolean :: "string \<Rightarrow> TracedEntry list \<Rightarrow> bool option" where
  "lookup_boolean k [] = None"
| "lookup_boolean k (SetBoolean k' b # es) = (if k = k' then Some b else lookup_boolean k es)"
| "lookup_boolean k (SetInteger k' v # es) = lookup_boolean k es"

definition traced_boolean :: "TracedValue \<Rightarrow> string \<Rightarrow> string \<Rightarrow> bool option" where
  "traced_boolean state dict k =
     (case map_of state dict of None \<Rightarrow> None | Some es \<Rightarrow> lookup_boolean k es)"

section \<open>The raster order comparator\<close>

text \<open>
  Lines 62-76 of \<^verbatim>\<open>RasterOrderComparator::operator()\<close>: the resolution rule and
  the final \<^verbatim>\<open>IsHigherPriorityThan\<close>.
\<close>

definition resolution_then_priority :: "bool \<Rightarrow> TilePriority \<Rightarrow> TilePriority \<Rightarrow> bool" where
  "resolution_then_priority prioritize_low_res a_priority b_priority =
     (if priority_bin b_priority = priority_bin a_priority \<and>
         resolution b_priority \<noteq> resolution a_priority
      then
        (if resolution a_priority = NON_IDEAL_RESOLUTION then True
         else if resolution b_priority = NON_IDEAL_RESOLUTION then False
         else if prioritize_low_res then resolution b_priority = LOW_RESOLUTION
         else resolution b_priority = HIGH_RESOLUTION)
      else IsHigherPriorityThan b_priority a_priority)"

text \<open>Lines 33-76: the comparison of the two selected tiles.\<close>

definition compare_tiles :: "TreePriority \<Rightarrow> Tile \<Rightarrow> Tile \<Rightarrow> bool" where
  "compare_tiles tp a_tile b_tile =
     (let a_priority = priority_for_tree_priority a_tile tp;
          b_priority = priority_for_tree_priority b_tile tp;
          prioritize_low_res = (tp = SMOOTHNESS_TAKES_PRIORITY);
          a_is_pending_now = (priority_bin (priority a_tile PENDING_TREE) = NOW);
          b_is_pending_now = (priority_bin (priority b_tile PENDING_TREE) = NOW)
      in if prioritize_low_res \<and> priority_bin a_priority = EVENTUALLY \<and>
            priority_bin b_priority = EVENTUALLY
         then
           (if a_is_pending_now \<or> b_is_pending_now then a_is_pending_now < b_is_pending_now
            else resolution_then_priority prioritize_low_res a_priority b_priority)
         else resolution_then_priority prioritize_low_res a_priority b_priority)"

text \<open>
  \<^verbatim>\<open>RasterOrderComparator::operator()\<close> (lines 16-77): true iff \<open>a\<close> has strictly
  lower priority than \<open>b\<close>. Past the emptiness test both pairs have a next tile;
  the last branch stands for a read of a tile that is not there.
\<close>

definition RasterOrderComparator ::
  "TreePriority \<Rightarrow> PairedTilingSetQueue \<Rightarrow> PairedTilingSetQueue \<Rightarrow> bool" where
  "RasterOrderComparator tp a b =
     (if Paired_IsEmpty a \<or> Paired_IsEmpty b then Paired_IsEmpty b < Paired_IsEmpty a
      else
        (case (next_tile tp a, next_tile tp b) of
           (Some a_tile, Some b_tile) \<Rightarrow> compare_tiles tp a_tile b_tile
         | _ \<Rightarrow> False))"

text \<open>
  A rank for the tiles the comparator looks at, used to show that it is a strict weak
  order: the bin first, then the pending-\<^verbatim>\<open>NOW\<close> class of the smoothness mode, then
  the resolution as the policy ranks it, then the distance, nearer tiles higher.
\<close>

definition resolution_rank :: "bool \<Rightarrow> TileResolution \<Rightarrow> nat" where
  "resolution_rank prioritize_low_res r =
     (case r of
        NON_IDEAL_RESOLUTION \<Rightarrow> 0
      | LOW_RESOLUTION \<Rightarrow> (if prioritize_low_res then 2 else 1)
      | HIGH_RESOLUTION \<Rightarrow> (if prioritize_low_res then 1 else 2))"

definition tile_rank :: "TreePriority \<Rightarrow> Tile \<Rightarrow> nat \<times> real" where
  "tile_rank tp t =
     (let p = priority_for_tree_priority t tp
      in if tp = SMOOTHNESS_TAKES_PRIORITY \<and> priority_bin p = EVENTUALLY \<and>
            priority_bin (priority t PENDING_TREE) = NOW
         then (4, 0)
         else (1 + 4 * bin_rank (priority_bin p) +
                 resolution_rank (tp = SMOOTHNESS_TAKES_PRIORITY) (resolution p),
               - distance_to_visible p))"

definition raster_rank :: "TreePriority \<Rightarrow> PairedTilingSetQueue \<Rightarrow> nat \<times> real" where
  "raster_rank tp pq =
     (if Paired_IsEmpty pq then (0, 0)
      else (case next_tile tp pq of None \<Rightarrow> (0, 0) | Some t \<Rightarrow> tile_rank tp t))"

section \<open>The heap of pairs\<close>

text \<open>
  Modelled from the spec: \<^verbatim>\<open>paired_queues_\<close> is a \<^verbatim>\<open>ScopedPtrVector\<close>, whose
  \<^verbatim>\<open>make_heap\<close>, \<^verbatim>\<open>pop_heap\<close> and \<^verbatim>\<open>push_heap\<close> are not part of the source
  at hand. They are the primitives of a standard binary heap over the vector, called
  with the comparator: \<^verbatim>\<open>make_heap\<close> heapifies the sequence, \<^verbatim>\<open>pop_heap\<close> sifts
  the root down into the trailing position, \<^verbatim>\<open>push_heap\<close> re-inserts the trailing
  element by sifting it up. The element at index \<open>i\<close> has its parent at
  \<open>(i - 1) div 2\<close>, and in a heap no parent compares lower than its child.
\<close>

definition parent :: "nat \<Rightarrow> nat" where
  "parent i = (i - 1) div 2"

definition heap_prefix :: "('a \<Rightarrow> 'a \<Rightarrow> bool) \<Rightarrow> nat \<Rightarrow> 'a list \<Rightarrow> bool" where
  "heap_prefix cmp n xs = (\<forall>i \<in> {1..<n}. \<not> cmp (xs ! parent i) (xs ! i))"

text \<open>The same for the parents from \<open>k\<close> on only, as the heap is while it is being made.\<close>

definition heap_from :: "('a \<Rightarrow> 'a \<Rightarrow> bool) \<Rightarrow> nat \<Rightarrow> nat \<Rightarrow> 'a list \<Rightarrow> bool" where
  "heap_from cmp k n xs = (\<forall>j \<in> {1..<n}. k \<le> parent j \<longrightarrow> \<not> cmp (xs ! parent j) (xs ! j))"

definition is_heap :: "('a \<Rightarrow> 'a \<Rightarrow> bool) \<Rightarrow> 'a list \<Rightarrow> bool" where
  "is_heap cmp xs = heap_prefix cmp (length xs) xs"

definition swap_at :: "nat \<Rightarrow> nat \<Rightarrow> 'a list \<Rightarrow> 'a list" where
  "swap_at i j xs = xs[i := xs ! j, j := xs ! i]"

function sift_up :: "('a \<Rightarrow> 'a \<Rightarrow> bool) \<Rightarrow> 'a list \<Rightarrow> nat \<Rightarrow> 'a list" where
  "sift_up cmp xs i =
     (if 0 < i \<and> cmp (xs ! parent i) (xs ! i)
      then sift_up cmp (swap_at (parent i) i xs) (parent i)
      else xs)"
  by pat_completeness auto
termination
  by (relation "measure (\<lambda>(cmp, xs, i). i)") (auto simp: parent_def)

declare sift_up.simps [simp del]

text \<open>The larger child of \<open>i\<close> among the first \<open>n\<close> elements; \<open>i\<close> has a left child there.\<close>

definition larger_child :: "('a \<Rightarrow> 'a \<Rightarrow> bool) \<Rightarrow> nat \<Rightarrow> 'a list \<Rightarrow> nat \<Rightarrow> nat" where
  "larger_child cmp n xs i =
     (if 2 * i + 2 < n \<and> cmp (xs ! (2 * i + 1)) (xs ! (2 * i + 2)) then 2 * i + 2 else 2 * i + 1)"

function sift_down :: "('a \<Rightarrow> 'a \<Rightarrow> bool) \<Rightarrow> nat \<Rightarrow> 'a list \<Rightarrow> nat \<Rightarrow> 'a list" where
  "sift_down cmp n xs i =
     (if 2 * i + 1 < n \<and> cmp (xs ! i) (xs ! larger_child cmp n xs i)
      then sift_down cmp n (swap_at i (larger_child cmp n xs i) xs) (larger_child cmp n xs i)
      else xs)"
  by pat_completeness auto
termination
  by (relation "measure (\<lambda>(cmp, n, xs, i). n - i)") (auto simp: larger_child_def)

declare sift_down.simps [simp del]

text \<open>
  Modelled from the spec: \<^verbatim>\<open>push_heap\<close> sifts the last element up into the heap
  in front of it.
\<close>

definition push_heap :: "('a \<Rightarrow> 'a \<Rightarrow> bool) \<Rightarrow> 'a list \<Rightarrow> 'a list" where
  "push_heap cmp xs = sift_up cmp xs (length xs - 1)"

text \<open>
  Modelled from the spec: \<^verbatim>\<open>pop_heap\<close> exchanges the root with the last element
  and sifts the new root down within the elements in front of the last.
\<close>

definition pop_heap :: "('a \<Rightarrow> 'a \<Rightarrow> bool) \<Rightarrow> 'a list \<Rightarrow> 'a list" where
  "pop_heap cmp xs =
     (if length xs \<le> 1 then xs
      else sift_down cmp (length xs - 1) (swap_at 0 (length xs - 1) xs) 0)"

text \<open>
  Modelled from the spec: \<^verbatim>\<open>make_heap\<close> heapifies the whole sequence, sifting
  down every element that has a child, the last such element first.
\<close>

definition make_heap :: "('a \<Rightarrow> 'a \<Rightarrow> bool) \<Rightarrow> 'a list \<Rightarrow> 'a list" where
  "make_heap cmp xs =
     fold (\<lambda>i ys. sift_down cmp (length xs) ys i) (rev [0..<length xs div 2]) xs"

text \<open>
  The comparator has to be a strict weak order for the heap operations to work:
  irreflexive, transitive, and with a transitive "not lower than".
\<close>

definition strict_weak_order :: "('a \<Rightarrow> 'a \<Rightarrow> bool) \<Rightarrow> bool" where
  "strict_weak_order cmp =
     ((\<forall>x. \<not> cmp x x) \<and>
      (\<forall>x y z. cmp x y \<longrightarrow> cmp y z \<longrightarrow> cmp x z) \<and>
      (\<forall>x y z. \<not> cmp x y \<longrightarrow> \<not> cmp y z \<longrightarrow> \<not> cmp x z))"

section \<open>The raster tile priority queue\<close>

record RasterTilePriorityQueue =
  paired_queues :: "PairedTilingSetQueue list"
  tree_priority :: TreePriority

text \<open>\<^verbatim>\<open>RasterTilePriorityQueue::Build\<close> (lines 135-147).\<close>

definition Build ::
  "Pair list \<Rightarrow> TreePriority \<Rightarrow> RasterTilePriorityQueue \<Rightarrow> RasterTilePriorityQueue" where
  "Build paired_layers tp q =
     \<lparr>paired_queues =
        make_heap (RasterOrderComparator tp)
          (paired_queues q @ map (\<lambda>layer_pair. PairedTilingSetQueue_new layer_pair tp) paired_layers),
      tree_priority = tp\<rparr>"

text \<open>\<^verbatim>\<open>RasterTilePriorityQueue::Reset\<close> (lines 149-151).\<close>

definition Reset :: "RasterTilePriorityQueue \<Rightarrow> RasterTilePriorityQueue" where
  "Reset q = q\<lparr>paired_queues := []\<rparr>"

text \<open>\<^verbatim>\<open>RasterTilePriorityQueue::IsEmpty\<close> (lines 153-155).\<close>

definition IsEmpty :: "RasterTilePriorityQueue \<Rightarrow> bool" where
  "IsEmpty q = (case paired_queues q of [] \<Rightarrow> True | front # rest \<Rightarrow> Paired_IsEmpty front)"

text \<open>\<^verbatim>\<open>RasterTilePriorityQueue::Top\<close> (lines 157-160); \<open>None\<close> is the failed \<^verbatim>\<open>DCHECK\<close>.\<close>

definition Top :: "RasterTilePriorityQueue \<Rightarrow> Tile option" where
  "Top q =
     (case paired_queues q of
        [] \<Rightarrow> None
      | front # rest \<Rightarrow> Paired_Top (tree_priority q) front)"

text \<open>
  \<^verbatim>\<open>RasterTilePriorityQueue::Pop\<close> (lines 162-169): \<^verbatim>\<open>pop_heap\<close> moves the root
  to the back, the pair at the back is popped in place, \<^verbatim>\<open>push_heap\<close> sifts it up.
\<close>

definition Pop :: "RasterTilePriorityQueue \<Rightarrow> RasterTilePriorityQueue option" where
  "Pop q =
     (if IsEmpty q then None
      else
        (let cmp = RasterOrderComparator (tree_priority q);
             popped = pop_heap cmp (paired_queues q);
             back = length popped - 1
         in case Paired_Pop (tree_priority q) (popped ! back) of
              None \<Rightarrow> None
            | Some paired_queue \<Rightarrow>
                Some (q\<lparr>paired_queues := push_heap cmp (popped[back := paired_queue])\<rparr>)))"

section \<open>What a pair is expected to emit\<close>

text \<open>
  A tile of a pair with both layers is emitted from the queue of a tree when it is not
  shared, or when \<^verbatim>\<open>HigherPriorityTree\<close>, asked about that tile alone, names that
  tree: the test \<^verbatim>\<open>SkipTilesReturnedByTwin\<close> applies to the top of the selected
  queue.
\<close>

definition owned_by :: "TreePriority \<Rightarrow> WhichTree \<Rightarrow> Tile \<Rightarrow> bool" where
  "owned_by tp tree t = (\<not> is_shared t \<or> HigherPriorityTree tp None None (Some t) = Some tree)"

definition queue_tiles :: "TilingSetRasterQueue option \<Rightarrow> Tile list" where
  "queue_tiles q = (case q of None \<Rightarrow> [] | Some ts \<Rightarrow> ts)"

definition accepted_tiles :: "TreePriority \<Rightarrow> PairedTilingSetQueue \<Rightarrow> Tile multiset" where
  "accepted_tiles tp pq =
     mset (filter (owned_by tp ACTIVE_TREE) (queue_tiles (active_queue pq))) +
     mset (filter (owned_by tp PENDING_TREE) (queue_tiles (pending_queue pq)))"


section \<open>Concrete tiles and pairs\<close>

text \<open>Small inputs on which the theorems below are exercised.\<close>

definition mk_priority :: "PriorityBin \<Rightarrow> TileResolution \<Rightarrow> real \<Rightarrow> TilePriority" where
  "mk_priority b r d = \<lparr>resolution = r, priority_bin = b, distance_to_visible = d\<rparr>"

definition mk_tile :: "nat \<Rightarrow> TilePriority \<Rightarrow> TilePriority \<Rightarrow> bool \<Rightarrow> Tile" where
  "mk_tile n pa pp s = \<lparr>tile_id = n, priority_active = pa, priority_pending = pp, is_shared = s\<rparr>"

definition active_only :: "Tile list \<Rightarrow> PairedTilingSetQueue" where
  "active_only ts = \<lparr>active_queue = Some ts, pending_queue = None, has_both_layers = False\<rparr>"

definition pending_only :: "Tile list \<Rightarrow> PairedTilingSetQueue" where
  "pending_only ts = \<lparr>active_queue = None, pending_queue = Some ts, has_both_layers = False\<rparr>"

text \<open>Active bin \<^verbatim>\<open>EVENTUALLY\<close>, with the given active resolution, distance and pending bin.\<close>

definition eventually_tile :: "nat \<Rightarrow> TileResolution \<Rightarrow> real \<Rightarrow> PriorityBin \<Rightarrow> Tile" where
  "eventually_tile n r d pending_bin =
     mk_tile n (mk_priority EVENTUALLY r d) (mk_priority pending_bin HIGH_RESOLUTION 1) False"

text \<open>The same priority on both trees.\<close>

definition plain_tile :: "nat \<Rightarrow> PriorityBin \<Rightarrow> TileResolution \<Rightarrow> real \<Rightarrow> Tile" where
  "plain_tile n b r d = mk_tile n (mk_priority b r d) (mk_priority b r d) False"

definition shared_X :: Tile where
  "shared_X = mk_tile 1 (mk_priority NOW HIGH_RESOLUTION 1) (mk_priority NOW HIGH_RESOLUTION 2) True"

definition both_layers :: "Tile list \<Rightarrow> Tile list \<Rightarrow> Pair" where
  "both_layers as ps = \<lparr>active = Some (\<lambda>low_res. as), pending = Some (\<lambda>low_res. ps)\<rparr>"

text \<open>Three pairs that form a heap, and the first of them after a pop.\<close>

definition pair_a :: PairedTilingSetQueue where
  "pair_a = active_only [plain_tile 1 NOW HIGH_RESOLUTION 1, plain_tile 4 EVENTUALLY HIGH_RESOLUTION 9]"

definition pair_a' :: PairedTilingSetQueue where
  "pair_a' = active_only [plain_tile 4 EVENTUALLY HIGH_RESOLUTION 9]"

definition pair_b :: PairedTilingSetQueue where
  "pair_b = active_only [plain_tile 2 SOON HIGH_RESOLUTION 2]"

definition pair_c :: PairedTilingSetQueue where
  "pair_c = active_only [plain_tile 3 NOW HIGH_RESOLUTION 5]"

definition queue_abc :: RasterTilePriorityQueue where
  "queue_abc = \<lparr>paired_queues = [pair_a, pair_b, pair_c], tree_priority = SAME_PRIORITY_FOR_BOTH_TREES\<rparr>"


lemmas fixture_defs =
  mk_priority_def mk_tile_def active_only_def pending_only_def eventually_tile_def plain_tile_def

lemmas comparator_defs =
  RasterOrderComparator_def compare_tiles_def resolution_then_priority_def IsHigherPriorityThan_def
  priority_for_tree_priority_def priority_def next_tile_def NextTileIteratorTree_def
  next_queue_def queue_Top_def Paired_IsEmpty_def absent_or_empty_def

section \<open>Properties of the comparator\<close>

lemma next_tile_nonempty: "\<not> Paired_IsEmpty pq \<Longrightarrow> \<exists>t. next_tile tp pq = Some t"
  by (cases tp)
     (auto simp: Paired_IsEmpty_def next_tile_def NextTileIteratorTree_def next_queue_def
        HigherPriorityTree_def shared_or_top_def queue_Top_def absent_or_empty_def Let_def
        split: option.splits list.splits)

text \<open>
  C5. If exactly one of two pairs is empty, the comparator ranks the empty one strictly
  lower than the other; two empty pairs are equivalent, the comparator is false in both
  directions. So an empty pair is never above, nor equivalent to, a pair with a tile.
\<close>

theorem empty_pair_is_lowest:
  "(Paired_IsEmpty a \<and> \<not> Paired_IsEmpty b \<longrightarrow>
      RasterOrderComparator tp a b \<and> \<not> RasterOrderComparator tp b a) \<and>
   (Paired_IsEmpty a \<and> Paired_IsEmpty b \<longrightarrow>
      \<not> RasterOrderComparator tp a b \<and> \<not> RasterOrderComparator tp b a)"
  by (simp add: RasterOrderComparator_def)

theorem empty_pair_is_lowest_witness:
  "RasterOrderComparator SAME_PRIORITY_FOR_BOTH_TREES (active_only [])
     (active_only [mk_tile 1 (mk_priority NOW HIGH_RESOLUTION 1) (mk_priority NOW HIGH_RESOLUTION 1) False]) \<and>
   \<not> RasterOrderComparator SAME_PRIORITY_FOR_BOTH_TREES
     (active_only [mk_tile 1 (mk_priority NOW HIGH_RESOLUTION 1) (mk_priority NOW HIGH_RESOLUTION 1) False])
     (active_only []) \<and>
   \<not> RasterOrderComparator SAME_PRIORITY_FOR_BOTH_TREES (active_only []) (active_only [])"
  using empty_pair_is_lowest
          [of "active_only []"
              "active_only [mk_tile 1 (mk_priority NOW HIGH_RESOLUTION 1) (mk_priority NOW HIGH_RESOLUTION 1) False]"
              SAME_PRIORITY_FOR_BOTH_TREES]
        empty_pair_is_lowest [of "active_only []" "active_only []" SAME_PRIORITY_FOR_BOTH_TREES]
  by (simp add: Paired_IsEmpty_def absent_or_empty_def active_only_def)

lemma compare_tiles_rank: "compare_tiles tp a b = (tile_rank tp a < tile_rank tp b)"
  by (cases tp; cases "priority_bin (priority_for_tree_priority a tp)";
      cases "priority_bin (priority_for_tree_priority b tp)";
      cases "resolution (priority_for_tree_priority a tp)";
      cases "resolution (priority_for_tree_priority b tp)")
     (auto simp: compare_tiles_def tile_rank_def resolution_then_priority_def
        IsHigherPriorityThan_def resolution_rank_def Let_def)

lemma tile_rank_pos: "(0, 0) < tile_rank tp t" "\<not> tile_rank tp t < (0, 0)"
  by (auto simp: tile_rank_def Let_def)

lemma RasterOrderComparator_rank:
  "RasterOrderComparator tp a b = (raster_rank tp a < raster_rank tp b)"
proof (cases "Paired_IsEmpty a \<or> Paired_IsEmpty b")
  case True
  then show ?thesis
    using next_tile_nonempty [of a tp] next_tile_nonempty [of b tp]
    by (auto simp: RasterOrderComparator_def raster_rank_def tile_rank_pos)
next
  case False
  then obtain ta tb where "next_tile tp a = Some ta" "next_tile tp b = Some tb"
    using next_tile_nonempty [of a tp] next_tile_nonempty [of b tp] by auto
  with False show ?thesis
    by (simp add: RasterOrderComparator_def raster_rank_def compare_tiles_rank)
qed

lemma RasterOrderComparator_swo: "strict_weak_order (RasterOrderComparator tp)"
  unfolding strict_weak_order_def RasterOrderComparator_rank
  by (auto simp: not_less intro: less_trans order_trans)


text \<open>
  C6. For pairs whose state does not change between comparisons, the relation
  \<^verbatim>\<open>RasterOrderComparator\<close> computes is a strict weak order for every tree priority:
  no pair is below itself, two pairs are never below each other, "below" is
  transitive, and so is "not below".
\<close>

theorem RasterOrderComparator_strict_weak_order:
  "\<not> RasterOrderComparator tp a a \<and>
   (RasterOrderComparator tp a b \<longrightarrow> \<not> RasterOrderComparator tp b a) \<and>
   (RasterOrderComparator tp a b \<and> RasterOrderComparator tp b c \<longrightarrow> RasterOrderComparator tp a c) \<and>
   (\<not> RasterOrderComparator tp a b \<and> \<not> RasterOrderComparator tp b c \<longrightarrow>
      \<not> RasterOrderComparator tp a c)"
  unfolding RasterOrderComparator_rank by (auto simp: not_less intro: less_trans order_trans)

theorem RasterOrderComparator_strict_weak_order_witness:
  "RasterOrderComparator SMOOTHNESS_TAKES_PRIORITY
     (active_only [plain_tile 1 SOON HIGH_RESOLUTION 3])
     (active_only [plain_tile 3 NOW HIGH_RESOLUTION 5]) \<and>
   \<not> RasterOrderComparator SMOOTHNESS_TAKES_PRIORITY
     (active_only [plain_tile 2 SOON LOW_RESOLUTION 9])
     (active_only [plain_tile 1 SOON HIGH_RESOLUTION 3])"
proof -
  let ?a = "active_only [plain_tile 1 SOON HIGH_RESOLUTION 3]"
  let ?b = "active_only [plain_tile 2 SOON LOW_RESOLUTION 9]"
  let ?c = "active_only [plain_tile 3 NOW HIGH_RESOLUTION 5]"
  have ab: "RasterOrderComparator SMOOTHNESS_TAKES_PRIORITY ?a ?b"
    by (simp add: comparator_defs fixture_defs)
  have bc: "RasterOrderComparator SMOOTHNESS_TAKES_PRIORITY ?b ?c"
    by (simp add: comparator_defs fixture_defs)
  show ?thesis
    using RasterOrderComparator_strict_weak_order [of SMOOTHNESS_TAKES_PRIORITY ?a ?b ?c]
          RasterOrderComparator_strict_weak_order [of SMOOTHNESS_TAKES_PRIORITY ?a ?b ?a] ab bc
    by blast
qed

text \<open>
  C1, as the code has it. Under \<^verbatim>\<open>SMOOTHNESS_TAKES_PRIORITY\<close>, when the policy
  priorities of both selected tiles have bin \<^verbatim>\<open>EVENTUALLY\<close>: if exactly one tile's
  pending bin is \<^verbatim>\<open>NOW\<close>, that tile compares strictly higher; if both are
  \<^verbatim>\<open>NOW\<close>, the comparator returns false in both directions and the two pairs are
  equivalent; only if neither is \<^verbatim>\<open>NOW\<close> does the comparison fall through to the
  resolution rule and \<^verbatim>\<open>IsHigherPriorityThan\<close>.
\<close>

theorem pending_now_override:
  assumes "\<not> Paired_IsEmpty a" and "\<not> Paired_IsEmpty b"
    and "next_tile SMOOTHNESS_TAKES_PRIORITY a = Some ta"
    and "next_tile SMOOTHNESS_TAKES_PRIORITY b = Some tb"
    and "priority_bin (priority_for_tree_priority ta SMOOTHNESS_TAKES_PRIORITY) = EVENTUALLY"
    and "priority_bin (priority_for_tree_priority tb SMOOTHNESS_TAKES_PRIORITY) = EVENTUALLY"
  shows
    "(priority_bin (priority ta PENDING_TREE) \<noteq> NOW \<and> priority_bin (priority tb PENDING_TREE) = NOW \<longrightarrow>
        RasterOrderComparator SMOOTHNESS_TAKES_PRIORITY a b \<and>
        \<not> RasterOrderComparator SMOOTHNESS_TAKES_PRIORITY b a) \<and>
     (priority_bin (priority ta PENDING_TREE) = NOW \<and> priority_bin (priority tb PENDING_TREE) = NOW \<longrightarrow>
        \<not> RasterOrderComparator SMOOTHNESS_TAKES_PRIORITY a b \<and>
        \<not> RasterOrderComparator SMOOTHNESS_TAKES_PRIORITY b a) \<and>
     (priority_bin (priority ta PENDING_TREE) \<noteq> NOW \<and> priority_bin (priority tb PENDING_TREE) \<noteq> NOW \<longrightarrow>
        RasterOrderComparator SMOOTHNESS_TAKES_PRIORITY a b =
          resolution_then_priority True
            (priority_for_tree_priority ta SMOOTHNESS_TAKES_PRIORITY)
            (priority_for_tree_priority tb SMOOTHNESS_TAKES_PRIORITY))"
  using assms by (simp add: RasterOrderComparator_def compare_tiles_def)

theorem pending_now_override_witness:
  "RasterOrderComparator SMOOTHNESS_TAKES_PRIORITY
     (active_only [eventually_tile 1 HIGH_RESOLUTION 1 SOON])
     (active_only [eventually_tile 2 HIGH_RESOLUTION 5 NOW]) \<and>
   \<not> RasterOrderComparator SMOOTHNESS_TAKES_PRIORITY
     (active_only [eventually_tile 2 HIGH_RESOLUTION 5 NOW])
     (active_only [eventually_tile 1 HIGH_RESOLUTION 1 SOON])"
  using pending_now_override
          [of "active_only [eventually_tile 1 HIGH_RESOLUTION 1 SOON]"
              "active_only [eventually_tile 2 HIGH_RESOLUTION 5 NOW]"
              "eventually_tile 1 HIGH_RESOLUTION 1 SOON"
              "eventually_tile 2 HIGH_RESOLUTION 5 NOW"]
  by (simp add: next_tile_def NextTileIteratorTree_def next_queue_def queue_Top_def
      Paired_IsEmpty_def absent_or_empty_def priority_for_tree_priority_def priority_def
      fixture_defs)

text \<open>
  The claim as stated lets two tiles that are both pending \<^verbatim>\<open>NOW\<close> fall through.
  Two such tiles at distances 5 and 1: the fall-through rules rank the farther one
  lower, the comparator calls them equivalent.
\<close>

theorem both_pending_now_counterexample:
  "priority_bin (priority_for_tree_priority (eventually_tile 1 HIGH_RESOLUTION 5 NOW)
      SMOOTHNESS_TAKES_PRIORITY) = EVENTUALLY \<and>
   priority_bin (priority_for_tree_priority (eventually_tile 2 HIGH_RESOLUTION 1 NOW)
      SMOOTHNESS_TAKES_PRIORITY) = EVENTUALLY \<and>
   priority_bin (priority (eventually_tile 1 HIGH_RESOLUTION 5 NOW) PENDING_TREE) = NOW \<and>
   priority_bin (priority (eventually_tile 2 HIGH_RESOLUTION 1 NOW) PENDING_TREE) = NOW \<and>
   next_tile SMOOTHNESS_TAKES_PRIORITY (active_only [eventually_tile 1 HIGH_RESOLUTION 5 NOW]) =
     Some (eventually_tile 1 HIGH_RESOLUTION 5 NOW) \<and>
   next_tile SMOOTHNESS_TAKES_PRIORITY (active_only [eventually_tile 2 HIGH_RESOLUTION 1 NOW]) =
     Some (eventually_tile 2 HIGH_RESOLUTION 1 NOW) \<and>
   resolution_then_priority True
     (priority_for_tree_priority (eventually_tile 1 HIGH_RESOLUTION 5 NOW) SMOOTHNESS_TAKES_PRIORITY)
     (priority_for_tree_priority (eventually_tile 2 HIGH_RESOLUTION 1 NOW) SMOOTHNESS_TAKES_PRIORITY) \<and>
   \<not> RasterOrderComparator SMOOTHNESS_TAKES_PRIORITY
     (active_only [eventually_tile 1 HIGH_RESOLUTION 5 NOW])
     (active_only [eventually_tile 2 HIGH_RESOLUTION 1 NOW]) \<and>
   \<not> RasterOrderComparator SMOOTHNESS_TAKES_PRIORITY
     (active_only [eventually_tile 2 HIGH_RESOLUTION 1 NOW])
     (active_only [eventually_tile 1 HIGH_RESOLUTION 5 NOW])"
  by (simp add: comparator_defs fixture_defs)

text \<open>
  C4, as the code has it. For two non-empty pairs whose selected policy priorities have
  the same bin and different resolutions, and unless the pending-\<^verbatim>\<open>NOW\<close> test of
  the smoothness mode decides first (policy \<^verbatim>\<open>SMOOTHNESS_TAKES_PRIORITY\<close>, common
  bin \<^verbatim>\<open>EVENTUALLY\<close>, at least one pending bin \<^verbatim>\<open>NOW\<close>): a tile of
  \<^verbatim>\<open>NON_IDEAL_RESOLUTION\<close> compares strictly lower than the other; of a
  \<^verbatim>\<open>HIGH_RESOLUTION\<close> and a \<^verbatim>\<open>LOW_RESOLUTION\<close> tile, the low one compares
  higher under \<^verbatim>\<open>SMOOTHNESS_TAKES_PRIORITY\<close> and the high one under the other
  policies; the distances play no part.
\<close>

theorem resolution_rule:
  assumes "\<not> Paired_IsEmpty a" and "\<not> Paired_IsEmpty b"
    and "next_tile tp a = Some ta" and "next_tile tp b = Some tb"
    and "priority_bin (priority_for_tree_priority ta tp) =
         priority_bin (priority_for_tree_priority tb tp)"
    and "resolution (priority_for_tree_priority ta tp) \<noteq>
         resolution (priority_for_tree_priority tb tp)"
    and "\<not> (tp = SMOOTHNESS_TAKES_PRIORITY \<and>
            priority_bin (priority_for_tree_priority ta tp) = EVENTUALLY \<and>
            (priority_bin (priority ta PENDING_TREE) = NOW \<or>
             priority_bin (priority tb PENDING_TREE) = NOW))"
  shows
    "(resolution (priority_for_tree_priority ta tp) = NON_IDEAL_RESOLUTION \<longrightarrow>
        RasterOrderComparator tp a b \<and> \<not> RasterOrderComparator tp b a) \<and>
     (resolution (priority_for_tree_priority ta tp) = HIGH_RESOLUTION \<and>
      resolution (priority_for_tree_priority tb tp) = LOW_RESOLUTION \<longrightarrow>
        (if tp = SMOOTHNESS_TAKES_PRIORITY
         then RasterOrderComparator tp a b \<and> \<not> RasterOrderComparator tp b a
         else RasterOrderComparator tp b a \<and> \<not> RasterOrderComparator tp a b))"
proof -
  let ?pa = "priority_for_tree_priority ta tp" and ?pb = "priority_for_tree_priority tb tp"
  have ab: "RasterOrderComparator tp a b =
              resolution_then_priority (tp = SMOOTHNESS_TAKES_PRIORITY) ?pa ?pb"
    using assms(1-5,7) by (auto simp: RasterOrderComparator_def compare_tiles_def Let_def)
  have ba: "RasterOrderComparator tp b a =
              resolution_then_priority (tp = SMOOTHNESS_TAKES_PRIORITY) ?pb ?pa"
    using assms(1-5,7) by (auto simp: RasterOrderComparator_def compare_tiles_def Let_def)
  show ?thesis
    unfolding ab ba using assms(5,6) by (auto simp: resolution_then_priority_def)
qed

theorem resolution_rule_witness:
  "RasterOrderComparator SAME_PRIORITY_FOR_BOTH_TREES
     (active_only [plain_tile 1 SOON NON_IDEAL_RESOLUTION (1 / 10)])
     (active_only [plain_tile 2 SOON HIGH_RESOLUTION 100]) \<and>
   \<not> RasterOrderComparator SAME_PRIORITY_FOR_BOTH_TREES
     (active_only [plain_tile 2 SOON HIGH_RESOLUTION 100])
     (active_only [plain_tile 1 SOON NON_IDEAL_RESOLUTION (1 / 10)])"
  using resolution_rule
          [of "active_only [plain_tile 1 SOON NON_IDEAL_RESOLUTION (1 / 10)]"
              "active_only [plain_tile 2 SOON HIGH_RESOLUTION 100]"
              SAME_PRIORITY_FOR_BOTH_TREES
              "plain_tile 1 SOON NON_IDEAL_RESOLUTION (1 / 10)"
              "plain_tile 2 SOON HIGH_RESOLUTION 100"]
  by (simp add: next_tile_def NextTileIteratorTree_def next_queue_def queue_Top_def
      Paired_IsEmpty_def absent_or_empty_def priority_for_tree_priority_def priority_def
      fixture_defs)

text \<open>
  The claim as stated has the \<^verbatim>\<open>NON_IDEAL_RESOLUTION\<close> tile lower under every
  policy. In smoothness mode, with both active bins \<^verbatim>\<open>EVENTUALLY\<close>, a non-ideal
  tile that is pending \<^verbatim>\<open>NOW\<close> compares strictly higher than a high-resolution
  tile that is not.
\<close>

theorem non_ideal_resolution_counterexample:
  "next_tile SMOOTHNESS_TAKES_PRIORITY (active_only [eventually_tile 1 NON_IDEAL_RESOLUTION 1 NOW]) =
     Some (eventually_tile 1 NON_IDEAL_RESOLUTION 1 NOW) \<and>
   next_tile SMOOTHNESS_TAKES_PRIORITY (active_only [eventually_tile 2 HIGH_RESOLUTION 1 SOON]) =
     Some (eventually_tile 2 HIGH_RESOLUTION 1 SOON) \<and>
   priority_bin (priority_for_tree_priority (eventually_tile 1 NON_IDEAL_RESOLUTION 1 NOW)
      SMOOTHNESS_TAKES_PRIORITY) =
   priority_bin (priority_for_tree_priority (eventually_tile 2 HIGH_RESOLUTION 1 SOON)
      SMOOTHNESS_TAKES_PRIORITY) \<and>
   resolution (priority_for_tree_priority (eventually_tile 1 NON_IDEAL_RESOLUTION 1 NOW)
      SMOOTHNESS_TAKES_PRIORITY) = NON_IDEAL_RESOLUTION \<and>
   resolution (priority_for_tree_priority (eventually_tile 2 HIGH_RESOLUTION 1 SOON)
      SMOOTHNESS_TAKES_PRIORITY) = HIGH_RESOLUTION \<and>
   \<not> RasterOrderComparator SMOOTHNESS_TAKES_PRIORITY
     (active_only [eventually_tile 1 NON_IDEAL_RESOLUTION 1 NOW])
     (active_only [eventually_tile 2 HIGH_RESOLUTION 1 SOON]) \<and>
   RasterOrderComparator SMOOTHNESS_TAKES_PRIORITY
     (active_only [eventually_tile 2 HIGH_RESOLUTION 1 SOON])
     (active_only [eventually_tile 1 NON_IDEAL_RESOLUTION 1 NOW])"
  by (simp add: comparator_defs fixture_defs)

section \<open>Properties of the tree arbiter\<close>

text \<open>
  C3. \<^verbatim>\<open>HigherPriorityTree\<close> implements the policy table. Under
  \<^verbatim>\<open>NEW_CONTENT_TAKES_PRIORITY\<close> it returns \<^verbatim>\<open>PENDING_TREE\<close> for every input.
  Under \<^verbatim>\<open>SAME_PRIORITY_FOR_BOTH_TREES\<close> it returns \<^verbatim>\<open>ACTIVE_TREE\<close> iff the
  active priority of the active top is strictly higher than the pending priority of
  the pending top, and \<^verbatim>\<open>PENDING_TREE\<close> otherwise, ties included. Under
  \<^verbatim>\<open>SMOOTHNESS_TAKES_PRIORITY\<close> it returns \<^verbatim>\<open>PENDING_TREE\<close> exactly when the
  active bin of the active top is \<^verbatim>\<open>EVENTUALLY\<close> and the pending bin of the pending
  top is \<^verbatim>\<open>NOW\<close>, and \<^verbatim>\<open>ACTIVE_TREE\<close> otherwise. With a shared tile, both
  priorities are read from that tile, whatever the queues hold.
\<close>

theorem HigherPriorityTree_policy_table:
  "HigherPriorityTree NEW_CONTENT_TAKES_PRIORITY active_q pending_q shared_tile = Some PENDING_TREE \<and>
   HigherPriorityTree SAME_PRIORITY_FOR_BOTH_TREES (Some (ta # as)) (Some (tb # bs)) None =
     Some (if IsHigherPriorityThan (priority ta ACTIVE_TREE) (priority tb PENDING_TREE)
           then ACTIVE_TREE else PENDING_TREE) \<and>
   HigherPriorityTree SMOOTHNESS_TAKES_PRIORITY (Some (ta # as)) (Some (tb # bs)) None =
     Some (if priority_bin (priority ta ACTIVE_TREE) = EVENTUALLY \<and>
              priority_bin (priority tb PENDING_TREE) = NOW
           then PENDING_TREE else ACTIVE_TREE) \<and>
   HigherPriorityTree SAME_PRIORITY_FOR_BOTH_TREES active_q pending_q (Some t) =
     Some (if IsHigherPriorityThan (priority t ACTIVE_TREE) (priority t PENDING_TREE)
           then ACTIVE_TREE else PENDING_TREE) \<and>
   HigherPriorityTree SMOOTHNESS_TAKES_PRIORITY active_q pending_q (Some t) =
     Some (if priority_bin (priority t ACTIVE_TREE) = EVENTUALLY \<and>
              priority_bin (priority t PENDING_TREE) = NOW
           then PENDING_TREE else ACTIVE_TREE)"
  by (simp add: HigherPriorityTree_def shared_or_top_def queue_Top_def)

section \<open>The traced state\<close>

text \<open>
  C9. The claim: in the value \<^verbatim>\<open>StateAsValue\<close> reports, the \<^verbatim>\<open>has_tile\<close> entry
  of the \<^verbatim>\<open>pending_queue\<close> dictionary says whether the pending queue is present and
  not empty. The code computes that boolean (line 299) and then writes
  \<^verbatim>\<open>active_queue_has_tile\<close> into the dictionary (line 310): for a pair with no
  active queue and one pending tile the entry is false although the pending queue has
  a tile.
\<close>

theorem StateAsValue_pending_has_tile_is_active:
  "traced_boolean (StateAsValue (pending_only [plain_tile 1 NOW HIGH_RESOLUTION 1]))
     ''pending_queue'' ''has_tile'' = Some False \<and>
   \<not> absent_or_empty (pending_queue (pending_only [plain_tile 1 NOW HIGH_RESOLUTION 1]))"
  by (simp add: traced_boolean_def StateAsValue_def absent_or_empty_def queue_Top_def
      pending_only_def)

section \<open>The tiles a pair emits\<close>

lemma emitted_active_only: "emitted tp (active_only ts) = ts"
proof (induction ts)
  case Nil
  have "Paired_IsEmpty (active_only [])"
    by (simp add: Paired_IsEmpty_def absent_or_empty_def active_only_def)
  then show ?case
    by (simp add: emitted.simps [of tp "active_only []"])
next
  case (Cons t ts)
  have "Paired_Pop tp (active_only (t # ts)) = Some (active_only ts)"
    by (simp add: Paired_Pop_def Paired_IsEmpty_def absent_or_empty_def NextTileIteratorTree_def
        advance_def next_queue_def active_only_def)
  moreover have "Paired_Top tp (active_only (t # ts)) = Some t"
    by (simp add: Paired_Top_def next_tile_def Paired_IsEmpty_def absent_or_empty_def
        NextTileIteratorTree_def next_queue_def queue_Top_def active_only_def)
  moreover have "\<not> Paired_IsEmpty (active_only (t # ts))"
    by (simp add: Paired_IsEmpty_def absent_or_empty_def active_only_def)
  ultimately show ?case
    using Cons.IH by (simp add: emitted.simps [of tp "active_only (t # ts)"])
qed

lemma emitted_pending_only: "emitted tp (pending_only ts) = ts"
proof (induction ts)
  case Nil
  have "Paired_IsEmpty (pending_only [])"
    by (simp add: Paired_IsEmpty_def absent_or_empty_def pending_only_def)
  then show ?case
    by (simp add: emitted.simps [of tp "pending_only []"])
next
  case (Cons t ts)
  have "Paired_Pop tp (pending_only (t # ts)) = Some (pending_only ts)"
    by (simp add: Paired_Pop_def Paired_IsEmpty_def absent_or_empty_def NextTileIteratorTree_def
        advance_def next_queue_def pending_only_def)
  moreover have "Paired_Top tp (pending_only (t # ts)) = Some t"
    by (simp add: Paired_Top_def next_tile_def Paired_IsEmpty_def absent_or_empty_def
        NextTileIteratorTree_def next_queue_def queue_Top_def pending_only_def)
  moreover have "\<not> Paired_IsEmpty (pending_only (t # ts))"
    by (simp add: Paired_IsEmpty_def absent_or_empty_def pending_only_def)
  ultimately show ?case
    using Cons.IH by (simp add: emitted.simps [of tp "pending_only (t # ts)"])
qed


lemma HigherPriorityTree_tops:
  "\<not> absent_or_empty a \<Longrightarrow> \<not> absent_or_empty p \<Longrightarrow>
   \<exists>tree. HigherPriorityTree tp a p None = Some tree"
  by (cases tp)
     (auto simp: HigherPriorityTree_def shared_or_top_def queue_Top_def absent_or_empty_def Let_def
        split: option.splits list.splits)

lemma NextTileIteratorTree_total: "\<exists>next_tree. NextTileIteratorTree tp pq = Some next_tree"
  by (simp add: NextTileIteratorTree_def HigherPriorityTree_tops)

lemma next_queue_has_tile:
  "\<not> Paired_IsEmpty pq \<Longrightarrow> NextTileIteratorTree tp pq = Some next_tree \<Longrightarrow>
   \<not> absent_or_empty (next_queue next_tree pq)"
  by (cases next_tree)
     (auto simp: NextTileIteratorTree_def Paired_IsEmpty_def next_queue_def split: if_splits)

text \<open>What a non-empty pair does next: the tree, the tile and the pair after the tile.\<close>

lemma next_step:
  assumes "\<not> Paired_IsEmpty pq"
  obtains next_tree t pq1 where
    "NextTileIteratorTree tp pq = Some next_tree"
    "queue_Top (next_queue next_tree pq) = Some t"
    "advance next_tree pq = Some pq1"
    "has_both_layers pq1 = has_both_layers pq"
    "accepted_tiles tp pq =
       (if owned_by tp next_tree t then {#t#} else {#}) + accepted_tiles tp pq1"
proof -
  obtain next_tree where nt: "NextTileIteratorTree tp pq = Some next_tree"
    using NextTileIteratorTree_total [of tp pq] by blast
  have "\<not> absent_or_empty (next_queue next_tree pq)"
    using assms nt by (rule next_queue_has_tile)
  then obtain t rest where q: "next_queue next_tree pq = Some (t # rest)"
    by (cases "next_queue next_tree pq") (auto simp: absent_or_empty_def neq_Nil_conv)
  let ?pq1 = "if next_tree = ACTIVE_TREE then pq\<lparr>active_queue := Some rest\<rparr>
              else pq\<lparr>pending_queue := Some rest\<rparr>"
  have adv: "advance next_tree pq = Some ?pq1"
    using q by (simp add: advance_def)
  have top: "queue_Top (next_queue next_tree pq) = Some t"
    using q by (simp add: queue_Top_def)
  have both: "has_both_layers ?pq1 = has_both_layers pq"
    by simp
  have acc: "accepted_tiles tp pq =
       (if owned_by tp next_tree t then {#t#} else {#}) + accepted_tiles tp ?pq1"
    using q by (cases next_tree) (auto simp: accepted_tiles_def next_queue_def queue_tiles_def)
  show thesis
    using that [OF nt top adv both acc] .
qed






lemma Paired_Pop_active_only: "Paired_Pop tp (active_only (t # ts)) = Some (active_only ts)"
  by (simp add: Paired_Pop_def Paired_IsEmpty_def absent_or_empty_def NextTileIteratorTree_def
      advance_def next_queue_def active_only_def)

lemma Paired_Pop_pending_only: "Paired_Pop tp (pending_only (t # ts)) = Some (pending_only ts)"
  by (simp add: Paired_Pop_def Paired_IsEmpty_def absent_or_empty_def NextTileIteratorTree_def
      advance_def next_queue_def pending_only_def)

lemma new_active_only:
  "PairedTilingSetQueue_new \<lparr>active = Some layer, pending = None\<rparr> tp =
     active_only (layer (tp = SMOOTHNESS_TAKES_PRIORITY))"
  by (simp add: PairedTilingSetQueue_new_def CreateRasterQueue_def active_only_def)

lemma new_pending_only:
  "PairedTilingSetQueue_new \<lparr>active = None, pending = Some layer\<rparr> tp =
     pending_only (layer (tp = SMOOTHNESS_TAKES_PRIORITY))"
  by (simp add: PairedTilingSetQueue_new_def CreateRasterQueue_def pending_only_def)







text \<open>
  C10. A pair built from one layer only has \<^verbatim>\<open>has_both_layers\<close> false, so
  neither its constructor nor \<^verbatim>\<open>Pop\<close> runs \<^verbatim>\<open>SkipTilesReturnedByTwin\<close>: the
  constructor leaves the queue as the layer made it, \<^verbatim>\<open>Pop\<close> removes exactly the
  top tile, and the pair emits every tile of its queue, shared or not, in the queue's
  order.
\<close>

theorem single_layer_pair_emits_every_tile:
  "PairedTilingSetQueue_new \<lparr>active = Some layer, pending = None\<rparr> tp =
     active_only (layer (tp = SMOOTHNESS_TAKES_PRIORITY)) \<and>
   PairedTilingSetQueue_new \<lparr>active = None, pending = Some layer\<rparr> tp =
     pending_only (layer (tp = SMOOTHNESS_TAKES_PRIORITY)) \<and>
   Paired_Pop tp (active_only (t # ts)) = Some (active_only ts) \<and>
   Paired_Pop tp (pending_only (t # ts)) = Some (pending_only ts) \<and>
   emitted tp (PairedTilingSetQueue_new \<lparr>active = Some layer, pending = None\<rparr> tp) =
     layer (tp = SMOOTHNESS_TAKES_PRIORITY) \<and>
   emitted tp (PairedTilingSetQueue_new \<lparr>active = None, pending = Some layer\<rparr> tp) =
     layer (tp = SMOOTHNESS_TAKES_PRIORITY)"
  by (simp add: new_active_only new_pending_only Paired_Pop_active_only Paired_Pop_pending_only
      emitted_active_only emitted_pending_only)













section \<open>Sifting in a binary heap\<close>

lemma parent_less: "0 < j \<Longrightarrow> parent j < j"
  by (simp add: parent_def)

lemma parent_eq_iff: "0 < j \<Longrightarrow> (parent j = i) = (j = 2 * i + 1 \<or> j = 2 * i + 2)"
  unfolding parent_def by arith

lemma length_swap_at [simp]: "length (swap_at i j xs) = length xs"
  by (simp add: swap_at_def)

lemma nth_swap_at:
  "i < length xs \<Longrightarrow> j < length xs \<Longrightarrow>
   swap_at i j xs ! k = (if k = j then xs ! i else if k = i then xs ! j else xs ! k)"
  by (simp add: swap_at_def nth_list_update)

lemma mset_swap_at: "i < length xs \<Longrightarrow> j < length xs \<Longrightarrow> mset (swap_at i j xs) = mset xs"
  by (simp add: swap_at_def mset_swap)

lemma swo_asym: "strict_weak_order cmp \<Longrightarrow> cmp x y \<Longrightarrow> \<not> cmp y x"
  unfolding strict_weak_order_def by blast

lemma swo_trans: "strict_weak_order cmp \<Longrightarrow> cmp x y \<Longrightarrow> cmp y z \<Longrightarrow> cmp x z"
  unfolding strict_weak_order_def by blast

lemma swo_not_trans: "strict_weak_order cmp \<Longrightarrow> \<not> cmp x y \<Longrightarrow> \<not> cmp y z \<Longrightarrow> \<not> cmp x z"
  unfolding strict_weak_order_def by blast

lemma swo_less_not: "strict_weak_order cmp \<Longrightarrow> cmp x y \<Longrightarrow> \<not> cmp x z \<Longrightarrow> \<not> cmp y z"
  unfolding strict_weak_order_def by blast

lemma larger_child_cases:
  assumes "2 * i + 1 < n"
  shows "larger_child cmp n xs i < n" and "parent (larger_child cmp n xs i) = i"
    and "i < larger_child cmp n xs i"
  using assms by (auto simp: larger_child_def parent_def)

text \<open>The larger child is not below its sibling.\<close>

lemma larger_child_sibling:
  assumes "strict_weak_order cmp" and "0 < j" and "j < n" and "parent j = i"
  shows "\<not> cmp (xs ! larger_child cmp n xs i) (xs ! j)"
proof -
  have j: "j = 2 * i + 1 \<or> j = 2 * i + 2"
    using assms(2,4) by (simp add: parent_eq_iff)
  show ?thesis
  proof (cases "2 * i + 2 < n \<and> cmp (xs ! (2 * i + 1)) (xs ! (2 * i + 2))")
    case True
    then have c: "larger_child cmp n xs i = 2 * i + 2" by (simp add: larger_child_def)
    from j show ?thesis
    proof
      assume "j = 2 * i + 1"
      with True c show ?thesis using swo_asym [OF assms(1)] by auto
    next
      assume "j = 2 * i + 2"
      with c show ?thesis using assms(1) by (simp add: strict_weak_order_def)
    qed
  next
    case False
    then have c: "larger_child cmp n xs i = 2 * i + 1" by (auto simp: larger_child_def)
    from j show ?thesis
    proof
      assume "j = 2 * i + 1"
      with c show ?thesis using assms(1) by (simp add: strict_weak_order_def)
    next
      assume "j = 2 * i + 2"
      with c False assms(3) show ?thesis by auto
    qed
  qed
qed

lemma sift_down_stop:
  "\<not> (2 * i + 1 < n \<and> cmp (xs ! i) (xs ! larger_child cmp n xs i)) \<Longrightarrow>
   sift_down cmp n xs i = xs"
  by (subst sift_down.simps) auto

lemma sift_down_step:
  "2 * i + 1 < n \<Longrightarrow> cmp (xs ! i) (xs ! larger_child cmp n xs i) \<Longrightarrow>
   sift_down cmp n xs i =
     sift_down cmp n (swap_at i (larger_child cmp n xs i) xs) (larger_child cmp n xs i)"
  by (subst sift_down.simps) auto

lemma length_sift_down [simp]: "length (sift_down cmp n xs i) = length xs"
proof (induction cmp n xs i rule: sift_down.induct)
  case (1 cmp n xs i)
  show ?case
  proof (cases "2 * i + 1 < n \<and> cmp (xs ! i) (xs ! larger_child cmp n xs i)")
    case True
    then show ?thesis using "1.IH" by (simp add: sift_down_step)
  next
    case False
    then show ?thesis by (simp add: sift_down_stop)
  qed
qed

lemma mset_sift_down: "n \<le> length xs \<Longrightarrow> mset (sift_down cmp n xs i) = mset xs"
proof (induction cmp n xs i rule: sift_down.induct)
  case (1 cmp n xs i)
  show ?case
  proof (cases "2 * i + 1 < n \<and> cmp (xs ! i) (xs ! larger_child cmp n xs i)")
    case True
    then have "larger_child cmp n xs i < length xs" "i < length xs"
      using larger_child_cases [of i n cmp xs] "1.prems" by auto
    then show ?thesis
      using True "1.IH" "1.prems" by (simp add: sift_down_step mset_swap_at)
  next
    case False
    then show ?thesis by (simp add: sift_down_stop)
  qed
qed

lemma sift_down_nth_outside:
  "n \<le> length xs \<Longrightarrow> n \<le> j \<Longrightarrow> sift_down cmp n xs i ! j = xs ! j"
proof (induction cmp n xs i rule: sift_down.induct)
  case (1 cmp n xs i)
  show ?case
  proof (cases "2 * i + 1 < n \<and> cmp (xs ! i) (xs ! larger_child cmp n xs i)")
    case True
    then have c: "larger_child cmp n xs i < n" "i < larger_child cmp n xs i"
      using larger_child_cases [of i n cmp xs] by auto
    then show ?thesis
      using True "1.IH" "1.prems" by (simp add: sift_down_step nth_swap_at)
  next
    case False
    then show ?thesis by (simp add: sift_down_stop)
  qed
qed

text \<open>
  Sifting down at \<open>i\<close> repairs a heap that is in order from \<open>k\<close> on except below \<open>i\<close>:
  every parent from \<open>k\<close> on other than \<open>i\<close> is not below its children, and the parent
  of \<open>i\<close>, when it counts, is not below the children of \<open>i\<close>.
\<close>

lemma sift_down_heap_from:
  "strict_weak_order cmp \<Longrightarrow> n \<le> length xs \<Longrightarrow> k \<le> i \<Longrightarrow>
    (\<And>j. 0 < j \<Longrightarrow> j < n \<Longrightarrow> k \<le> parent j \<Longrightarrow> parent j \<noteq> i \<Longrightarrow>
        \<not> cmp (xs ! parent j) (xs ! j)) \<Longrightarrow>
    (\<And>j. 0 < j \<Longrightarrow> j < n \<Longrightarrow> parent j = i \<Longrightarrow> 0 < i \<Longrightarrow> k \<le> parent i \<Longrightarrow>
        \<not> cmp (xs ! parent i) (xs ! j)) \<Longrightarrow>
    heap_from cmp k n (sift_down cmp n xs i)"
proof (induction cmp n xs i rule: sift_down.induct)
  case (1 cmp n xs i)
  note swo = "1.prems"(1) and len_n = "1.prems"(2) and ki = "1.prems"(3)
  note A = "1.prems"(4) and B = "1.prems"(5)
  let ?c = "larger_child cmp n xs i"
  show ?case
  proof (cases "2 * i + 1 < n \<and> cmp (xs ! i) (xs ! ?c)")
    case False
    have "\<not> cmp (xs ! parent j) (xs ! j)" if j: "0 < j" "j < n" "k \<le> parent j" for j
    proof (cases "parent j = i")
      case pj: True
      then have "2 * i + 1 < n"
        using j by (auto simp: parent_eq_iff)
      with False have "\<not> cmp (xs ! i) (xs ! ?c)" by simp
      moreover have "\<not> cmp (xs ! ?c) (xs ! j)"
        using swo j(1,2) pj by (rule larger_child_sibling)
      ultimately show ?thesis
        using swo_not_trans [OF swo] pj by blast
    next
      case False
      with j show ?thesis by (simp add: A)
    qed
    then have "heap_from cmp k n xs"
      by (simp add: heap_from_def)
    with False show ?thesis by (simp add: sift_down_stop)
  next
    case True
    then have lt: "2 * i + 1 < n" and below: "cmp (xs ! i) (xs ! ?c)" by simp_all
    have c: "?c < n" "parent ?c = i" "i < ?c"
      using larger_child_cases [OF lt, of cmp xs] by simp_all
    let ?ys = "swap_at i ?c xs"
    have len: "i < length xs" "?c < length xs"
      using c len_n by simp_all
    have nth: "?ys ! m = (if m = ?c then xs ! i else if m = i then xs ! ?c else xs ! m)" for m
      using len by (simp add: nth_swap_at)
    have A': "\<not> cmp (?ys ! parent j) (?ys ! j)"
      if j: "0 < j" "j < n" "k \<le> parent j" "parent j \<noteq> ?c" for j
    proof (cases "parent j = i")
      case pj: True
      have ji: "j \<noteq> i" using parent_less [OF j(1)] pj by simp
      show ?thesis
      proof (cases "j = ?c")
        case True
        then show ?thesis
          using pj c swo_asym [OF swo below] by (simp add: nth)
      next
        case False
        moreover have "\<not> cmp (xs ! ?c) (xs ! j)"
          using swo j(1,2) pj by (rule larger_child_sibling)
        ultimately show ?thesis
          using pj ji c by (simp add: nth)
      qed
    next
      case pj: False
      have jc: "j \<noteq> ?c" using pj c by auto
      show ?thesis
      proof (cases "j = i")
        case True
        then have "0 < i" "k \<le> parent i" using j by simp_all
        then have "\<not> cmp (xs ! parent i) (xs ! ?c)"
          using B [of ?c] c by simp
        moreover have "parent i \<noteq> i" "parent i \<noteq> ?c"
          using parent_less [of i] \<open>0 < i\<close> c by simp_all
        ultimately show ?thesis
          using True c by (simp add: nth)
      next
        case False
        then show ?thesis
          using pj jc j A [of j] by (simp add: nth)
      qed
    qed
    have B': "\<not> cmp (?ys ! parent ?c) (?ys ! j)"
      if j: "0 < j" "j < n" "parent j = ?c" for j
    proof -
      have "j \<noteq> i" "j \<noteq> ?c"
        using parent_less [OF j(1)] j(3) c by simp_all
      moreover have "\<not> cmp (xs ! ?c) (xs ! j)"
        using A [of j] j c ki by simp
      ultimately show ?thesis
        using c by (simp add: nth)
    qed
    have "heap_from cmp k n (sift_down cmp n ?ys ?c)"
    proof (rule "1.IH")
      show "2 * i + 1 < n \<and> cmp (xs ! i) (xs ! ?c)" using True .
      show "strict_weak_order cmp" using swo .
      show "n \<le> length ?ys" using len_n by simp
      show "k \<le> ?c" using ki c by simp
    next
      fix j
      assume "0 < j" "j < n" "k \<le> parent j" "parent j \<noteq> ?c"
      then show "\<not> cmp (?ys ! parent j) (?ys ! j)" by (rule A')
    next
      fix j
      assume "0 < j" "j < n" "parent j = ?c"
      then show "\<not> cmp (?ys ! parent ?c) (?ys ! j)" by (rule B')
    qed
    then show ?thesis
      using lt below by (simp add: sift_down_step)
  qed
qed


lemma heap_prefix_heap_from: "heap_prefix cmp n xs = heap_from cmp 0 n xs"
  by (simp add: heap_prefix_def heap_from_def)

lemma sift_up_stop: "\<not> (0 < i \<and> cmp (xs ! parent i) (xs ! i)) \<Longrightarrow> sift_up cmp xs i = xs"
  by (subst sift_up.simps) auto

lemma sift_up_step:
  "0 < i \<Longrightarrow> cmp (xs ! parent i) (xs ! i) \<Longrightarrow>
   sift_up cmp xs i = sift_up cmp (swap_at (parent i) i xs) (parent i)"
  by (subst sift_up.simps) auto

lemma length_sift_up [simp]: "length (sift_up cmp xs i) = length xs"
proof (induction cmp xs i rule: sift_up.induct)
  case (1 cmp xs i)
  show ?case
  proof (cases "0 < i \<and> cmp (xs ! parent i) (xs ! i)")
    case True
    then show ?thesis using "1.IH" by (simp add: sift_up_step)
  next
    case False
    then show ?thesis by (simp add: sift_up_stop)
  qed
qed

lemma mset_sift_up: "i < length xs \<Longrightarrow> mset (sift_up cmp xs i) = mset xs"
proof (induction cmp xs i rule: sift_up.induct)
  case (1 cmp xs i)
  show ?case
  proof (cases "0 < i \<and> cmp (xs ! parent i) (xs ! i)")
    case True
    then have "parent i < length xs"
      using parent_less [of i] "1.prems" by simp
    then show ?thesis
      using True "1.IH" "1.prems" by (simp add: sift_up_step mset_swap_at)
  next
    case False
    then show ?thesis by (simp add: sift_up_stop)
  qed
qed

text \<open>
  Sifting up at \<open>i\<close> repairs a heap that is in order except above \<open>i\<close>: every element
  other than \<open>i\<close> is not above its parent, and the parent of \<open>i\<close> is not below the
  children of \<open>i\<close>.
\<close>

lemma sift_up_is_heap:
  "strict_weak_order cmp \<Longrightarrow> i < length xs \<Longrightarrow>
    (\<And>j. 0 < j \<Longrightarrow> j < length xs \<Longrightarrow> j \<noteq> i \<Longrightarrow> \<not> cmp (xs ! parent j) (xs ! j)) \<Longrightarrow>
    (\<And>j. 0 < j \<Longrightarrow> j < length xs \<Longrightarrow> parent j = i \<Longrightarrow> 0 < i \<Longrightarrow>
        \<not> cmp (xs ! parent i) (xs ! j)) \<Longrightarrow>
    is_heap cmp (sift_up cmp xs i)"
proof (induction cmp xs i rule: sift_up.induct)
  case (1 cmp xs i)
  note swo = "1.prems"(1) and len = "1.prems"(2)
  note A = "1.prems"(3) and B = "1.prems"(4)
  let ?p = "parent i"
  show ?case
  proof (cases "0 < i \<and> cmp (xs ! ?p) (xs ! i)")
    case False
    have "\<not> cmp (xs ! parent j) (xs ! j)" if "0 < j" "j < length xs" for j
      using that False A [of j] by (cases "j = i") auto
    then have "is_heap cmp xs"
      by (simp add: is_heap_def heap_prefix_def)
    with False show ?thesis by (simp add: sift_up_stop)
  next
    case True
    then have pos: "0 < i" and below: "cmp (xs ! ?p) (xs ! i)" by simp_all
    have p: "?p < i" using parent_less [OF pos] .
    let ?ys = "swap_at ?p i xs"
    have lenp: "?p < length xs" using p len by simp
    have nth: "?ys ! m = (if m = i then xs ! ?p else if m = ?p then xs ! i else xs ! m)" for m
      using len lenp by (simp add: nth_swap_at)
    have A': "\<not> cmp (?ys ! parent j) (?ys ! j)"
      if j: "0 < j" "j < length xs" "j \<noteq> ?p" for j
    proof (cases "j = i")
      case True
      then show ?thesis
        using p swo_asym [OF swo below] by (simp add: nth)
    next
      case ji: False
      show ?thesis
      proof (cases "parent j = ?p")
        case True
        have "\<not> cmp (xs ! ?p) (xs ! j)"
          using A [of j] j ji True by simp
        then have "\<not> cmp (xs ! i) (xs ! j)"
          using swo_less_not [OF swo below] by blast
        then show ?thesis
          using True ji j p by (simp add: nth)
      next
        case pp: False
        show ?thesis
        proof (cases "parent j = i")
          case True
          then have "\<not> cmp (xs ! ?p) (xs ! j)"
            using B [of j] j pos by simp
          then show ?thesis
            using True ji j p by (simp add: nth)
        next
          case False
          then show ?thesis
            using pp ji j A [of j] by (simp add: nth)
        qed
      qed
    qed
    have B': "\<not> cmp (?ys ! parent ?p) (?ys ! j)"
      if j: "0 < j" "j < length xs" "parent j = ?p" "0 < ?p" for j
    proof -
      have pp: "parent ?p < ?p" using parent_less [OF j(4)] .
      have top: "\<not> cmp (xs ! parent ?p) (xs ! ?p)"
        using A [of ?p] j(4) lenp p by simp
      have jp: "j \<noteq> ?p" using parent_less [OF j(1)] j(3) by simp
      show ?thesis
      proof (cases "j = i")
        case True
        then show ?thesis using top pp p by (simp add: nth)
      next
        case False
        then have "\<not> cmp (xs ! ?p) (xs ! j)"
          using A [of j] j by simp
        then have "\<not> cmp (xs ! parent ?p) (xs ! j)"
          using swo_not_trans [OF swo top] by blast
        then show ?thesis
          using False jp pp p by (simp add: nth)
      qed
    qed
    have "is_heap cmp (sift_up cmp ?ys ?p)"
    proof (rule "1.IH")
      show "0 < i \<and> cmp (xs ! ?p) (xs ! i)" using True .
      show "strict_weak_order cmp" using swo .
      show "?p < length ?ys" using lenp by simp
    next
      fix j
      assume "0 < j" "j < length ?ys" "j \<noteq> ?p"
      then show "\<not> cmp (?ys ! parent j) (?ys ! j)" using A' [of j] by simp
    next
      fix j
      assume "0 < j" "j < length ?ys" "parent j = ?p" "0 < ?p"
      then show "\<not> cmp (?ys ! parent ?p) (?ys ! j)" using B' [of j] by simp
    qed
    then show ?thesis
      using pos below by (simp add: sift_up_step)
  qed
qed


section \<open>The contracts of the three heap operations\<close>

lemma length_push_heap [simp]: "length (push_heap cmp xs) = length xs"
  by (simp add: push_heap_def)

lemma mset_push_heap: "mset (push_heap cmp xs) = mset xs"
proof (cases xs)
  case Nil
  then show ?thesis by (simp add: push_heap_def sift_up_stop)
next
  case (Cons x rest)
  then show ?thesis by (simp add: push_heap_def mset_sift_up)
qed

lemma push_heap_is_heap:
  assumes swo: "strict_weak_order cmp" and prefix: "heap_prefix cmp (length xs - 1) xs"
  shows "is_heap cmp (push_heap cmp xs)"
proof (cases xs)
  case Nil
  then show ?thesis
    by (simp add: push_heap_def sift_up_stop is_heap_def heap_prefix_def)
next
  case (Cons x rest)
  then have len: "length xs - 1 < length xs" by simp
  have "is_heap cmp (sift_up cmp xs (length xs - 1))"
  proof (rule sift_up_is_heap [OF swo len])
    fix j
    assume "0 < j" "j < length xs" "j \<noteq> length xs - 1"
    then show "\<not> cmp (xs ! parent j) (xs ! j)"
      using prefix by (simp add: heap_prefix_def)
  next
    fix j
    assume "0 < j" "j < length xs" "parent j = length xs - 1"
    then have False by (simp add: parent_eq_iff) arith
    then show "\<not> cmp (xs ! parent (length xs - 1)) (xs ! j)" ..
  qed
  then show ?thesis by (simp add: push_heap_def)
qed

lemma length_pop_heap [simp]: "length (pop_heap cmp xs) = length xs"
  by (simp add: pop_heap_def)

lemma mset_pop_heap: "mset (pop_heap cmp xs) = mset xs"
proof (cases "length xs \<le> 1")
  case True
  then show ?thesis by (simp add: pop_heap_def)
next
  case False
  then have "0 < length xs" "length xs - 1 < length xs" by (cases xs; simp)+
  then have "mset (swap_at 0 (length xs - 1) xs) = mset xs"
    by (rule mset_swap_at)
  with False show ?thesis by (simp add: pop_heap_def mset_sift_down)
qed

lemma pop_heap_back:
  assumes "xs \<noteq> []"
  shows "pop_heap cmp xs ! (length xs - 1) = xs ! 0"
proof (cases "length xs \<le> 1")
  case True
  with assms have "length xs - 1 = 0" by simp
  with True show ?thesis by (simp add: pop_heap_def)
next
  case False
  then have "0 < length xs" "length xs - 1 < length xs" by (cases xs; simp)+
  then have "swap_at 0 (length xs - 1) xs ! (length xs - 1) = xs ! 0"
    by (simp add: nth_swap_at)
  with False show ?thesis by (simp add: pop_heap_def sift_down_nth_outside)
qed

lemma pop_heap_prefix:
  assumes swo: "strict_weak_order cmp" and heap: "is_heap cmp xs"
  shows "heap_prefix cmp (length xs - 1) (pop_heap cmp xs)"
proof (cases "length xs \<le> 1")
  case True
  then show ?thesis by (simp add: pop_heap_def heap_prefix_def)
next
  case False
  let ?n = "length xs - 1"
  let ?ys = "swap_at 0 ?n xs"
  have "0 < length xs" "?n < length xs" using False by (cases xs; simp)+
  then have nth: "?ys ! m = (if m = ?n then xs ! 0 else if m = 0 then xs ! ?n else xs ! m)" for m
    by (rule nth_swap_at)
  have "heap_from cmp 0 ?n (sift_down cmp ?n ?ys 0)"
  proof (rule sift_down_heap_from [OF swo])
    show "?n \<le> length ?ys" by simp
    show "(0::nat) \<le> 0" by simp
  next
    fix j
    assume j: "0 < j" "j < ?n" "0 \<le> parent j" "parent j \<noteq> 0"
    then have "parent j < ?n" using parent_less [of j] by simp
    moreover have "\<not> cmp (xs ! parent j) (xs ! j)"
      using heap j by (simp add: is_heap_def heap_prefix_def)
    ultimately show "\<not> cmp (?ys ! parent j) (?ys ! j)"
      using j nth [of j] nth [of "parent j"] by simp
  next
    fix j
    assume "(0::nat) < 0"
    then show "\<not> cmp (?ys ! parent 0) (?ys ! j)" by simp
  qed
  then show ?thesis
    using False by (simp add: pop_heap_def heap_prefix_heap_from)
qed

lemma length_fold_sift_down [simp]:
  "length (fold (\<lambda>i ys. sift_down cmp n ys i) is xs) = length xs"
  by (induction "is" arbitrary: xs) simp_all

lemma mset_fold_sift_down:
  "n \<le> length xs \<Longrightarrow> mset (fold (\<lambda>i ys. sift_down cmp n ys i) is xs) = mset xs"
  by (induction "is" arbitrary: xs) (simp_all add: mset_sift_down)

lemma length_make_heap [simp]: "length (make_heap cmp xs) = length xs"
  by (simp add: make_heap_def)

lemma mset_make_heap: "mset (make_heap cmp xs) = mset xs"
  by (simp add: make_heap_def mset_fold_sift_down)

lemma fold_sift_down_heap:
  assumes swo: "strict_weak_order cmp"
  shows "n \<le> length xs \<Longrightarrow> heap_from cmp m n xs \<Longrightarrow>
         heap_from cmp 0 n (fold (\<lambda>i ys. sift_down cmp n ys i) (rev [0..<m]) xs)"
proof (induction m arbitrary: xs)
  case 0
  then show ?case by simp
next
  case (Suc m)
  have "heap_from cmp m n (sift_down cmp n xs m)"
  proof (rule sift_down_heap_from [OF swo Suc.prems(1)])
    show "m \<le> m" by simp
  next
    fix j
    assume "0 < j" "j < n" "m \<le> parent j" "parent j \<noteq> m"
    then show "\<not> cmp (xs ! parent j) (xs ! j)"
      using Suc.prems(2) by (simp add: heap_from_def)
  next
    fix j
    assume "0 < m" "m \<le> parent m"
    then have False using parent_less [of m] by simp
    then show "\<not> cmp (xs ! parent m) (xs ! j)" ..
  qed
  moreover have "n \<le> length (sift_down cmp n xs m)"
    using Suc.prems(1) by simp
  ultimately have "heap_from cmp 0 n
      (fold (\<lambda>i ys. sift_down cmp n ys i) (rev [0..<m]) (sift_down cmp n xs m))"
    by (rule Suc.IH [rotated])
  then show ?case by simp
qed

lemma make_heap_is_heap:
  assumes swo: "strict_weak_order cmp"
  shows "is_heap cmp (make_heap cmp xs)"
proof -
  have "heap_from cmp (length xs div 2) (length xs) xs"
    unfolding heap_from_def parent_def by (auto simp: not_le)
  then have "heap_from cmp 0 (length xs) (make_heap cmp xs)"
    unfolding make_heap_def by (rule fold_sift_down_heap [OF swo order_refl])
  then show ?thesis
    by (simp add: is_heap_def heap_prefix_heap_from)
qed

section \<open>The heap of pairs under Build and Pop\<close>

lemma Paired_Pop_total: "\<not> Paired_IsEmpty pq \<Longrightarrow> \<exists>pq'. Paired_Pop tp pq = Some pq'"
proof -
  assume ne: "\<not> Paired_IsEmpty pq"
  from next_step [OF ne, of tp] obtain next_tree pq1 where
    "NextTileIteratorTree tp pq = Some next_tree" "advance next_tree pq = Some pq1"
    by blast
  with ne show ?thesis by (simp add: Paired_Pop_def)
qed

lemma heap_prefix_update: "n \<le> i \<Longrightarrow> heap_prefix cmp n (xs[i := v]) = heap_prefix cmp n xs"
proof -
  assume ni: "n \<le> i"
  have "xs[i := v] ! j = xs ! j \<and> xs[i := v] ! parent j = xs ! parent j" if "0 < j" "j < n" for j
    using that ni parent_less [of j] by simp
  then show ?thesis
    by (simp add: heap_prefix_def)
qed

lemma length_Build:
  "length (paired_queues (Build paired_layers tp q)) = length (paired_queues q) + length paired_layers"
  by (simp add: Build_def)

lemma mset_Build:
  "mset (paired_queues (Build paired_layers tp q)) =
     mset (paired_queues q) +
     mset (map (\<lambda>layer_pair. PairedTilingSetQueue_new layer_pair tp) paired_layers)"
  by (simp add: Build_def mset_make_heap)


lemma Pop_total:
  assumes "\<not> IsEmpty q"
  shows "\<exists>q'. Pop q = Some q'"
proof -
  from assms obtain front rest where
    q: "paired_queues q = front # rest" and front: "\<not> Paired_IsEmpty front"
    by (auto simp: IsEmpty_def split: list.splits)
  let ?cmp = "RasterOrderComparator (tree_priority q)"
  let ?popped = "pop_heap ?cmp (paired_queues q)"
  have "?popped ! (length ?popped - 1) = front"
    using pop_heap_back [of "paired_queues q" ?cmp] q by simp
  then obtain paired_queue where
    "Paired_Pop (tree_priority q) (?popped ! (length ?popped - 1)) = Some paired_queue"
    using Paired_Pop_total [OF front, of "tree_priority q"] by auto
  with assms show ?thesis by (simp add: Pop_def Let_def)
qed

lemma Pop_is_heap:
  assumes heap: "is_heap (RasterOrderComparator (tree_priority q)) (paired_queues q)"
    and pop: "Pop q = Some q'"
  shows "pop_heap (RasterOrderComparator (tree_priority q)) (paired_queues q) !
           (length (paired_queues q) - 1) = paired_queues q ! 0"
    and "heap_prefix (RasterOrderComparator (tree_priority q)) (length (paired_queues q) - 1)
           (pop_heap (RasterOrderComparator (tree_priority q)) (paired_queues q))"
    and "\<exists>paired_queue.
           Paired_Pop (tree_priority q)
             (pop_heap (RasterOrderComparator (tree_priority q)) (paired_queues q) !
                (length (paired_queues q) - 1)) = Some paired_queue \<and>
           paired_queues q' =
             push_heap (RasterOrderComparator (tree_priority q))
               ((pop_heap (RasterOrderComparator (tree_priority q)) (paired_queues q))
                  [length (paired_queues q) - 1 := paired_queue])"
    and "tree_priority q' = tree_priority q"
    and "is_heap (RasterOrderComparator (tree_priority q')) (paired_queues q')"
proof -
  let ?cmp = "RasterOrderComparator (tree_priority q)"
  let ?popped = "pop_heap ?cmp (paired_queues q)"
  let ?n1 = "length (paired_queues q) - 1"
  have swo: "strict_weak_order ?cmp" by (rule RasterOrderComparator_swo)
  from pop have ne: "paired_queues q \<noteq> []"
    by (auto simp: Pop_def IsEmpty_def split: if_splits)
  from pop obtain paired_queue where
    inner: "Paired_Pop (tree_priority q) (?popped ! ?n1) = Some paired_queue" and
    q': "q' = q\<lparr>paired_queues := push_heap ?cmp (?popped[?n1 := paired_queue])\<rparr>"
    by (auto simp: Pop_def Let_def split: if_splits option.splits)
  show "?popped ! ?n1 = paired_queues q ! 0"
    using ne by (rule pop_heap_back)
  show prefix: "heap_prefix ?cmp ?n1 ?popped"
    using swo heap by (rule pop_heap_prefix)
  show "\<exists>paired_queue. Paired_Pop (tree_priority q) (?popped ! ?n1) = Some paired_queue \<and>
          paired_queues q' = push_heap ?cmp (?popped[?n1 := paired_queue])"
    using inner q' by simp
  show "tree_priority q' = tree_priority q"
    using q' by simp
  have "heap_prefix ?cmp (length (?popped[?n1 := paired_queue]) - 1) (?popped[?n1 := paired_queue])"
    using prefix by (simp add: heap_prefix_update)
  then have "is_heap ?cmp (push_heap ?cmp (?popped[?n1 := paired_queue]))"
    using swo by (rule push_heap_is_heap [rotated])
  then show "is_heap (RasterOrderComparator (tree_priority q')) (paired_queues q')"
    using q' by simp
qed

text \<open>
  C7. After \<^verbatim>\<open>Build\<close> and after every \<^verbatim>\<open>Pop\<close> the vector of pairs is a valid
  max-heap under the comparator of the current tree priority. \<^verbatim>\<open>Pop\<close> succeeds on
  every queue that is not empty; it gets there by moving the root to the back with
  \<^verbatim>\<open>pop_heap\<close>, which leaves a heap in front of it, popping that one pair, outside
  the heap, and sifting it back in with \<^verbatim>\<open>push_heap\<close>.
\<close>

theorem heap_after_Build_and_Pop:
  "is_heap (RasterOrderComparator tp) (paired_queues (Build paired_layers tp q0)) \<and>
   tree_priority (Build paired_layers tp q0) = tp \<and>
   (\<not> IsEmpty q \<longrightarrow> (\<exists>q'. Pop q = Some q')) \<and>
   (is_heap (RasterOrderComparator (tree_priority q)) (paired_queues q) \<and> Pop q = Some q' \<longrightarrow>
      pop_heap (RasterOrderComparator (tree_priority q)) (paired_queues q) !
        (length (paired_queues q) - 1) = paired_queues q ! 0 \<and>
      heap_prefix (RasterOrderComparator (tree_priority q)) (length (paired_queues q) - 1)
        (pop_heap (RasterOrderComparator (tree_priority q)) (paired_queues q)) \<and>
      (\<exists>paired_queue.
         Paired_Pop (tree_priority q)
           (pop_heap (RasterOrderComparator (tree_priority q)) (paired_queues q) !
              (length (paired_queues q) - 1)) = Some paired_queue \<and>
         paired_queues q' =
           push_heap (RasterOrderComparator (tree_priority q))
             ((pop_heap (RasterOrderComparator (tree_priority q)) (paired_queues q))
                [length (paired_queues q) - 1 := paired_queue])) \<and>
      tree_priority q' = tree_priority q \<and>
      is_heap (RasterOrderComparator (tree_priority q')) (paired_queues q'))"
proof (intro conjI impI)
  show "is_heap (RasterOrderComparator tp) (paired_queues (Build paired_layers tp q0))"
    by (simp add: Build_def make_heap_is_heap [OF RasterOrderComparator_swo])
  show "tree_priority (Build paired_layers tp q0) = tp"
    by (simp add: Build_def)
next
  assume "\<not> IsEmpty q"
  then show "\<exists>q'. Pop q = Some q'" by (rule Pop_total)
next
  assume h: "is_heap (RasterOrderComparator (tree_priority q)) (paired_queues q) \<and> Pop q = Some q'"
  then have heap: "is_heap (RasterOrderComparator (tree_priority q)) (paired_queues q)"
    and pop: "Pop q = Some q'" by simp_all
  note facts = Pop_is_heap [OF heap pop]
  show "pop_heap (RasterOrderComparator (tree_priority q)) (paired_queues q) !
        (length (paired_queues q) - 1) = paired_queues q ! 0"
    by (rule facts(1))
  show "heap_prefix (RasterOrderComparator (tree_priority q)) (length (paired_queues q) - 1)
        (pop_heap (RasterOrderComparator (tree_priority q)) (paired_queues q))"
    by (rule facts(2))
  show "\<exists>paired_queue.
         Paired_Pop (tree_priority q)
           (pop_heap (RasterOrderComparator (tree_priority q)) (paired_queues q) !
              (length (paired_queues q) - 1)) = Some paired_queue \<and>
         paired_queues q' =
           push_heap (RasterOrderComparator (tree_priority q))
             ((pop_heap (RasterOrderComparator (tree_priority q)) (paired_queues q))
                [length (paired_queues q) - 1 := paired_queue])"
    by (rule facts(3))
  show "tree_priority q' = tree_priority q"
    by (rule facts(4))
  show "is_heap (RasterOrderComparator (tree_priority q')) (paired_queues q')"
    by (rule facts(5))
qed

theorem heap_after_Build_and_Pop_witness:
  "is_heap (RasterOrderComparator SAME_PRIORITY_FOR_BOTH_TREES) [pair_a, pair_b, pair_c] \<and>
   Pop queue_abc =
     Some \<lparr>paired_queues = [pair_c, pair_b, pair_a'],
            tree_priority = SAME_PRIORITY_FOR_BOTH_TREES\<rparr> \<and>
   is_heap (RasterOrderComparator SAME_PRIORITY_FOR_BOTH_TREES) [pair_c, pair_b, pair_a']"
proof -
  let ?q' = "\<lparr>paired_queues = [pair_c, pair_b, pair_a'],
              tree_priority = SAME_PRIORITY_FOR_BOTH_TREES\<rparr>"
  have heap: "is_heap (RasterOrderComparator SAME_PRIORITY_FOR_BOTH_TREES) [pair_a, pair_b, pair_c]"
    by code_simp
  have pop: "Pop queue_abc = Some ?q'"
    by code_simp
  have "is_heap (RasterOrderComparator (tree_priority ?q')) (paired_queues ?q')"
    using heap_after_Build_and_Pop [of _ _ _ queue_abc ?q'] heap pop
    by (simp add: queue_abc_def)
  with heap pop show ?thesis by simp
qed

text \<open>
  C8, as the code has it. \<^verbatim>\<open>Reset\<close> removes every pair. \<^verbatim>\<open>Build\<close> does not
  clear the vector: it adds one pair per element of \<^verbatim>\<open>paired_layers\<close> to whatever
  the vector holds and makes a heap of the whole. So after a \<^verbatim>\<open>Build\<close> that follows
  \<^verbatim>\<open>Reset\<close> the vector holds exactly one pair per element of
  \<^verbatim>\<open>paired_layers\<close> and nothing from an earlier \<^verbatim>\<open>Build\<close>.
\<close>

theorem Build_appends:
  "paired_queues (Reset q) = [] \<and>
   mset (paired_queues (Build paired_layers tp q)) =
     mset (paired_queues q) +
     mset (map (\<lambda>layer_pair. PairedTilingSetQueue_new layer_pair tp) paired_layers) \<and>
   mset (paired_queues (Build paired_layers tp (Reset q))) =
     mset (map (\<lambda>layer_pair. PairedTilingSetQueue_new layer_pair tp) paired_layers) \<and>
   length (paired_queues (Build paired_layers tp (Reset q))) = length paired_layers"
  by (simp add: mset_Build length_Build Reset_def)

text \<open>
  The claim as stated speaks of any \<^verbatim>\<open>Build\<close>. A second \<^verbatim>\<open>Build\<close> of one
  pair without a \<^verbatim>\<open>Reset\<close> in between leaves two pairs, the earlier one among them.
\<close>

theorem Build_twice_counterexample:
  "length (paired_queues
     (Build [both_layers [] []] SAME_PRIORITY_FOR_BOTH_TREES
        (Build [both_layers [shared_X] [shared_X]] SAME_PRIORITY_FOR_BOTH_TREES
           \<lparr>paired_queues = [], tree_priority = SAME_PRIORITY_FOR_BOTH_TREES\<rparr>))) = 2 \<and>
   PairedTilingSetQueue_new (both_layers [shared_X] [shared_X]) SAME_PRIORITY_FOR_BOTH_TREES
     \<in> set (paired_queues
     (Build [both_layers [] []] SAME_PRIORITY_FOR_BOTH_TREES
        (Build [both_layers [shared_X] [shared_X]] SAME_PRIORITY_FOR_BOTH_TREES
           \<lparr>paired_queues = [], tree_priority = SAME_PRIORITY_FOR_BOTH_TREES\<rparr>)))"
proof -
  let ?q1 = "Build [both_layers [shared_X] [shared_X]] SAME_PRIORITY_FOR_BOTH_TREES
           \<lparr>paired_queues = [], tree_priority = SAME_PRIORITY_FOR_BOTH_TREES\<rparr>"
  let ?q2 = "Build [both_layers [] []] SAME_PRIORITY_FOR_BOTH_TREES ?q1"
  have "length (paired_queues ?q2) = 2"
    by (simp add: length_Build)
  moreover have "PairedTilingSetQueue_new (both_layers [shared_X] [shared_X]) SAME_PRIORITY_FOR_BOTH_TREES
      \<in># mset (paired_queues ?q2)"
    by (simp add: mset_Build)
  ultimately show ?thesis by simp
qed

end
